theory Spec2Isabelle
  imports Main "HOL-Library.Log_Nat" "HOL-Library.Code_Target_Nat" "HOL-Library.Multiset"
begin

section \<open>JavaScript values used by the scraper\<close>

text \<open>
  Strings are sequences of UTF-16 code units, as in JavaScript; a code unit is a natural
  number. \<open>js\<close> embeds an ASCII literal. The euro sign of the shop's price texts is the
  single code unit 8364 (U+20AC).
\<close>

type_synonym jsstr = "nat list"

definition js :: "string \<Rightarrow> jsstr" where
  "js s = map of_char s"

definition euro :: jsstr where
  "euro = [8364]"

text \<open>
  \<open>String.prototype.trim\<close> removes WhiteSpace and LineTerminator code units from both ends:
  TAB, LF, VT, FF, CR, SP, NBSP, U+1680, U+2000..U+200A, U+2028, U+2029, U+202F, U+205F,
  U+3000 and U+FEFF.
\<close>

definition is_js_space :: "nat \<Rightarrow> bool" where
  "is_js_space c \<longleftrightarrow>
     c = 9 \<or> c = 10 \<or> c = 11 \<or> c = 12 \<or> c = 13 \<or> c = 32 \<or> c = 160 \<or> c = 5760 \<or>
     (8192 \<le> c \<and> c \<le> 8202) \<or> c = 8232 \<or> c = 8233 \<or> c = 8239 \<or> c = 8287 \<or>
     c = 12288 \<or> c = 65279"

definition trim :: "jsstr \<Rightarrow> jsstr" where
  "trim s = rev (dropWhile is_js_space (rev (dropWhile is_js_space s)))"

text \<open>\<open>\d\<close> of a JavaScript regular expression (without the unicode flag): 0-9 only.\<close>

definition is_digit :: "nat \<Rightarrow> bool" where
  "is_digit c \<longleftrightarrow> 48 \<le> c \<and> c \<le> 57"

definition digits_val :: "jsstr \<Rightarrow> nat" where
  "digits_val ds = foldl (\<lambda>acc c. 10 * acc + (c - 48)) 0 ds"

text \<open>\<open>s.startsWith(p)\<close> and \<open>s.includes(p)\<close>.\<close>

fun startsWith :: "jsstr \<Rightarrow> jsstr \<Rightarrow> bool" where
  "startsWith s [] = True"
| "startsWith [] (p # ps) = False"
| "startsWith (c # cs) (p # ps) = (c = p \<and> startsWith cs ps)"

fun str_includes :: "jsstr \<Rightarrow> jsstr \<Rightarrow> bool" where
  "str_includes [] p = (p = [])"
| "str_includes (c # cs) p = (startsWith (c # cs) p \<or> str_includes cs p)"

text \<open>\<open>s.replace(p, '')\<close> with a string pattern: the first occurrence of \<open>p\<close> is removed.\<close>

fun remove_first :: "jsstr \<Rightarrow> jsstr \<Rightarrow> jsstr" where
  "remove_first p [] = []"
| "remove_first p (c # cs) =
     (if startsWith (c # cs) p then drop (length p) (c # cs) else c # remove_first p cs)"

text \<open>
  Numbers that can be \<open>NaN\<close>. Stock counts come from \<open>parseInt\<close>, which yields \<open>NaN\<close> on
  a text without leading digits; every comparison with \<open>NaN\<close> is false and every sum with
  \<open>NaN\<close> is \<open>NaN\<close>. Integers are mathematical integers: the model is exact for magnitudes
  below 2^53, where binary64 arithmetic on integers is exact.
\<close>

datatype jsnum = NaN | Num int

fun num_gt0 :: "jsnum \<Rightarrow> bool" where
  "num_gt0 NaN = False"
| "num_gt0 (Num i) = (0 < i)"

fun num_add :: "jsnum \<Rightarrow> jsnum \<Rightarrow> jsnum" where
  "num_add (Num a) (Num b) = Num (a + b)"
| "num_add _ _ = NaN"

text \<open>
  \<open>parseInt(s, 10)\<close>: leading white space is skipped, an optional sign is read, then the
  longest run of decimal digits; no digit gives \<open>NaN\<close>.
\<close>

definition parseInt10 :: "jsstr \<Rightarrow> jsnum" where
  "parseInt10 s =
     (let t = dropWhile is_js_space s;
          neg = (t \<noteq> [] \<and> hd t = 45);
          r = (if t \<noteq> [] \<and> (hd t = 45 \<or> hd t = 43) then tl t else t);
          ds = takeWhile is_digit r
      in if ds = [] then NaN
         else Num ((if neg then - 1 else 1) * int (digits_val ds)))"

subsection \<open>Binary64 arithmetic of the price conversion\<close>

text \<open>
  \<open>parseFloat\<close> and the multiplication by 100 round to the nearest binary64 number, ties
  to even. A positive rational \<open>x\<close> with \<open>2^e \<le> x < 2^(e+1)\<close> is rounded to a multiple of
  \<open>2^(e-52)\<close> (53 significant bits). The exponent range is not bounded in the model:
  results agree with binary64 for values below 2^1024; below the normal range both the
  model and binary64 give a value whose hundredfold rounds to 0.
\<close>

definition pow2 :: "int \<Rightarrow> rat" where
  "pow2 e = (if 0 \<le> e then 2 ^ nat e else 1 / 2 ^ nat (- e))"

definition floor_log2 :: "rat \<Rightarrow> int" where
  "floor_log2 x =
     (let (p, q) = quotient_of x; d = bitlen p - bitlen q
      in if pow2 d \<le> x then d else d - 1)"

definition round_half_even :: "rat \<Rightarrow> int" where
  "round_half_even x =
     (let f = \<lfloor>x\<rfloor>; r = x - of_int f
      in if r < 1 / 2 then f
         else if 1 / 2 < r then f + 1
         else if even f then f else f + 1)"

definition round_positive :: "rat \<Rightarrow> rat" where
  "round_positive x =
     (let e = floor_log2 x - 52
      in of_int (round_half_even (x / pow2 e)) * pow2 e)"

definition to_double :: "rat \<Rightarrow> rat" where
  "to_double x =
     (if x = 0 then 0
      else if 0 < x then round_positive x
      else - round_positive (- x))"

text \<open>
  \<open>Math.round\<close>: the nearest integer, a tie going towards plus infinity.
\<close>

definition Math_round :: "rat \<Rightarrow> int" where
  "Math_round x = \<lfloor>x + 1 / 2\<rfloor>"

text \<open>
  The value of a text \<open>digits\<close>, \<open>digits.\<close> or \<open>digits.digits\<close>, and \<open>parseFloat\<close> of it.
\<close>

definition dec_value :: "jsstr \<Rightarrow> rat" where
  "dec_value s =
     (let ip = takeWhile is_digit s;
          fp = takeWhile is_digit (drop (Suc (length ip)) s)
      in of_nat (digits_val ip) + of_nat (digits_val fp) / 10 ^ length fp)"

definition parseFloat :: "jsstr \<Rightarrow> rat" where
  "parseFloat s = to_double (dec_value s)"

text \<open>
  \<open>priceText.match(/(\d+\.?\d*)/)\<close>: the leftmost match starts at the first digit; the
  digits, an optional dot and the digits after it are taken greedily. \<open>None\<close> is
  JavaScript's \<open>null\<close> (no digit in the text).
\<close>

definition priceMatch :: "jsstr \<Rightarrow> jsstr option" where
  "priceMatch priceText =
     (let r = dropWhile (\<lambda>c. \<not> is_digit c) priceText
      in if r = [] then None
         else let ip = takeWhile is_digit r; r1 = dropWhile is_digit r
              in if r1 \<noteq> [] \<and> hd r1 = 46
                 then Some (ip @ [46] @ takeWhile is_digit (tl r1))
                 else Some ip)"

definition priceCents_of :: "jsstr \<Rightarrow> int" where
  "priceCents_of priceText =
     (let priceEuros = (case priceMatch priceText of Some m \<Rightarrow> parseFloat m | None \<Rightarrow> 0)
      in Math_round (to_double (priceEuros * 100)))"

section \<open>The card extractor: parseCardData and scrapeCollection\<close>

text \<open>
  The page is given as the result of the cheerio selections the code makes: a card
  container with its attributes and, in document order, its sale rows; a sale row with
  the text of its quality element, its stock elements (elements whose id starts with
  \<open>ostk\<close>, each with id and text) and the text of its price element.
\<close>

record sale_element =
  quality_text :: jsstr
  stock_elements :: "(jsstr \<times> jsstr) list"
  price_text :: jsstr

record card_element =
  attrs :: "string \<Rightarrow> jsstr option"
  sales :: "sale_element list"
  set_element :: "jsstr option"
  img_src :: "jsstr option option"
  detail_href :: "jsstr option option"

record priced =
  price :: int
  stock :: jsnum
  priceFormatted :: jsstr

record condition_offer = priced +
  condition :: jsstr
  outpostId :: jsstr

record colors =
  white :: bool
  blue :: bool
  black :: bool
  red :: bool
  green :: bool
  colorless :: bool

record card_data = priced +
  name :: jsstr
  alphabet :: jsstr
  rarity :: jsstr
  foil :: bool
  colors :: colors
  conditions :: "condition_offer list"
  set_label :: "jsstr option"
  imageUrl :: "jsstr option"
  detailUrl :: "jsstr option"

record card = card_data +
  collection :: jsstr
  collectionId :: jsstr

record collection_ref =
  cname :: jsstr
  cid :: jsstr
  curl :: jsstr

text \<open>\<open>el.attr(a) || ''\<close> and \<open>el.attr(a) === '1'\<close>.\<close>

definition attr_or_empty :: "card_element \<Rightarrow> string \<Rightarrow> jsstr" where
  "attr_or_empty el a = (case attrs el a of Some v \<Rightarrow> v | None \<Rightarrow> [])"

definition attr_is_1 :: "card_element \<Rightarrow> string \<Rightarrow> bool" where
  "attr_is_1 el a = (attrs el a = Some (js ''1''))"

text \<open>
  The body of the \<open>each\<close> callback over the sale rows of a card: \<open>Some\<close> is the offer it
  pushes, \<open>None\<close> a row it leaves out.
\<close>

definition parseSale :: "sale_element \<Rightarrow> condition_offer option" where
  "parseSale saleEl =
     (let conditionText = trim (quality_text saleEl);
          stockElement = stock_elements saleEl;
          stockText = trim (concat (map snd stockElement));
          stock = parseInt10 (if stockText = [] then js ''0'' else stockText);
          priceText = trim (price_text saleEl);
          priceCents = priceCents_of priceText;
          outpostId = (case stockElement of [] \<Rightarrow> []
                       | (stockId, _) # _ \<Rightarrow>
                           if stockId \<noteq> [] then remove_first (js ''ostk'') stockId else [])
      in if conditionText \<noteq> [] \<and> (0 < priceCents \<or> num_gt0 stock)
         then Some \<lparr>price = priceCents, stock = stock, priceFormatted = priceText,
                    condition = conditionText, outpostId = outpostId\<rparr>
         else None)"

definition parseConditions :: "sale_element list \<Rightarrow> condition_offer list" where
  "parseConditions ss = List.map_filter parseSale ss"

text \<open>\<open>Math.min(...xs)\<close> for a non-empty argument list.\<close>

fun Math_min :: "int list \<Rightarrow> int" where
  "Math_min (x # xs) = fold min xs x"

text \<open>
  \<open>(n / 100).toFixed(2)\<close> for a positive integer \<open>n\<close> of cents: the euros, a dot and two
  digits of cents.
\<close>

fun dec_digits :: "nat \<Rightarrow> jsstr" where
  "dec_digits n = (if n < 10 then [48 + n] else dec_digits (n div 10) @ [48 + n mod 10])"

definition toFixed2_cents :: "int \<Rightarrow> jsstr" where
  "toFixed2_cents n =
     dec_digits (nat n div 100) @ [46, 48 + (nat n mod 100) div 10, 48 + nat n mod 10]"

definition absolute_url :: "jsstr option \<Rightarrow> jsstr" where
  "absolute_url a =
     (let u = (case a of Some v \<Rightarrow> v | None \<Rightarrow> [])
      in if u \<noteq> [] \<and> \<not> startsWith u (js ''http'')
         then js ''https://www.outpost.be/website/'' @ u else u)"

text \<open>
  The price of the card and its formatted text, from the offers: the cheapest offer in
  stock, else the cheapest priced offer, else the \<open>price\<close> attribute of the container,
  else 0.
\<close>

definition formatted_of :: "condition_offer list \<Rightarrow> int \<Rightarrow> jsstr" where
  "formatted_of cs p = (case find (\<lambda>c. price c = p) cs of Some c \<Rightarrow> priceFormatted c | None \<Rightarrow> [])"

definition cardPrice :: "card_element \<Rightarrow> condition_offer list \<Rightarrow> int \<times> jsstr" where
  "cardPrice cardElement conds =
     (let validPriceConditions = filter (\<lambda>c. 0 < price c) conds;
          availableConditions = filter (\<lambda>c. num_gt0 (stock c) \<and> 0 < price c) conds
      in if 0 < length availableConditions
         then (let p = Math_min (map price availableConditions)
               in (p, formatted_of availableConditions p))
         else if 0 < length validPriceConditions
         then (let p = Math_min (map price validPriceConditions)
               in (p, formatted_of validPriceConditions p))
         else (case parseInt10 (case attrs cardElement ''price'' of
                                  None \<Rightarrow> js ''0''
                                | Some v \<Rightarrow> if v = [] then js ''0'' else v) of
                 Num fallbackPrice \<Rightarrow>
                   if 0 < fallbackPrice
                   then (fallbackPrice, toFixed2_cents fallbackPrice @ js '' '' @ euro)
                   else (0, js ''0.00 '' @ euro)
               | NaN \<Rightarrow> (0, js ''0.00 '' @ euro)))"

definition parseCardData :: "card_element \<Rightarrow> card_data" where
  "parseCardData cardElement =
     (let conds = parseConditions (sales cardElement);
          (p, pf) = cardPrice cardElement conds
      in \<lparr>price = p,
          stock = foldl (\<lambda>sum c. num_add sum (stock c)) (Num 0) conds,
          priceFormatted = pf,
          name = attr_or_empty cardElement ''elnm'',
          alphabet = attr_or_empty cardElement ''alphabet'',
          rarity = attr_or_empty cardElement ''magicrarity'',
          foil = attr_is_1 cardElement ''foil'',
          colors = \<lparr>white = attr_is_1 cardElement ''cw'',
                    blue = attr_is_1 cardElement ''cu'',
                    black = attr_is_1 cardElement ''cb'',
                    red = attr_is_1 cardElement ''cr'',
                    green = attr_is_1 cardElement ''cg'',
                    colorless = attr_is_1 cardElement ''cnocol''\<rparr>,
          conditions = conds,
          set_label = map_option trim (set_element cardElement),
          imageUrl = map_option absolute_url (img_src cardElement),
          detailUrl = map_option absolute_url (detail_href cardElement)\<rparr>)"

text \<open>
  The four data quality checks of scrapeCollection and its loop over the card
  containers of a page. The loop state is the list of accepted cards, the number of
  skipped cards and the tally of reasons, which the function prints.
\<close>

definition hasValidName :: "card_data \<Rightarrow> bool" where
  "hasValidName cardData \<longleftrightarrow> name cardData \<noteq> [] \<and> trim (name cardData) \<noteq> []"

definition hasValidPrice :: "card_data \<Rightarrow> bool" where
  "hasValidPrice cardData \<longleftrightarrow> 0 < price cardData"

definition hasValidConditions :: "card_data \<Rightarrow> bool" where
  "hasValidConditions cardData \<longleftrightarrow> 0 < length (conditions cardData)"

definition hasValidSet :: "card_data \<Rightarrow> bool" where
  "hasValidSet cardData \<longleftrightarrow>
     (case set_label cardData of None \<Rightarrow> False | Some s \<Rightarrow> s \<noteq> [] \<and> trim s \<noteq> [])"

record skip_reasons =
  noName :: nat
  noPrice :: nat
  noConditions :: nat
  noSet :: nat

record scrape_state =
  accepted :: "card list"
  skippedCards :: nat
  skipReasons :: skip_reasons

definition bump :: "bool \<Rightarrow> nat \<Rightarrow> nat" where
  "bump failed n = (if failed then Suc n else n)"

definition passesFilters :: "card_data \<Rightarrow> bool" where
  "passesFilters cardData \<longleftrightarrow>
     hasValidName cardData \<and> hasValidPrice cardData \<and>
     hasValidConditions cardData \<and> hasValidSet cardData"

text \<open>The object \<open>{...cardData, collection: collection.name, collectionId: collection.id}\<close>.\<close>

definition withCollection :: "collection_ref \<Rightarrow> card_data \<Rightarrow> card" where
  "withCollection coll cardData =
     card_data.extend cardData \<lparr>collection = cname coll, collectionId = cid coll\<rparr>"

definition scrapeStep :: "collection_ref \<Rightarrow> scrape_state \<Rightarrow> card_element \<Rightarrow> scrape_state" where
  "scrapeStep coll st element =
     (let cardData = parseCardData element
      in if passesFilters cardData
         then st\<lparr>accepted := accepted st @ [withCollection coll cardData]\<rparr>
         else st\<lparr>skippedCards := Suc (skippedCards st),
                 skipReasons :=
                   \<lparr>noName = bump (\<not> hasValidName cardData) (noName (skipReasons st)),
                    noPrice = bump (\<not> hasValidPrice cardData) (noPrice (skipReasons st)),
                    noConditions =
                      bump (\<not> hasValidConditions cardData) (noConditions (skipReasons st)),
                    noSet = bump (\<not> hasValidSet cardData) (noSet (skipReasons st))\<rparr>\<rparr>)"

definition scrapePage :: "collection_ref \<Rightarrow> card_element list \<Rightarrow> scrape_state" where
  "scrapePage coll elements =
     foldl (scrapeStep coll)
       \<lparr>accepted = [], skippedCards = 0,
        skipReasons = \<lparr>noName = 0, noPrice = 0, noConditions = 0, noSet = 0\<rparr>\<rparr>
       elements"

definition scrapeCollection :: "collection_ref \<Rightarrow> card_element list \<Rightarrow> card list" where
  "scrapeCollection coll elements = accepted (scrapePage coll elements)"

section \<open>Array.prototype.sort\<close>

text \<open>
  \<open>xs.sort(cmp)\<close> is stable (ECMAScript 2019), and for a comparator that is consistent the
  sorted order is then determined: elements in ascending order, equal elements in their
  original order. The model is the stable insertion sort: from the right, each element is
  put in front of the first element that is not smaller.
\<close>

fun insert_sorted :: "('a \<Rightarrow> 'a \<Rightarrow> int) \<Rightarrow> 'a \<Rightarrow> 'a list \<Rightarrow> 'a list" where
  "insert_sorted cmp x [] = [x]"
| "insert_sorted cmp x (y # ys) =
     (if cmp x y \<le> 0 then x # y # ys else y # insert_sorted cmp x ys)"

definition js_sort :: "('a \<Rightarrow> 'a \<Rightarrow> int) \<Rightarrow> 'a list \<Rightarrow> 'a list" where
  "js_sort cmp xs = foldr (insert_sorted cmp) xs []"

section \<open>Consolidation: consolidateCards\<close>

text \<open>
  \<open>String.prototype.toLowerCase\<close> rests on the Unicode case tables, which are not part of
  the repository: it is the parameter \<open>lower\<close> of the functions that call it.
  \<open>toLowerCase_ascii\<close> is the built-in on ASCII strings.
\<close>

definition toLowerCase_ascii :: "jsstr \<Rightarrow> jsstr" where
  "toLowerCase_ascii s = map (\<lambda>c. if 65 \<le> c \<and> c \<le> 90 then c + 32 else c) s"

definition cardKey :: "(jsstr \<Rightarrow> jsstr) \<Rightarrow> card \<Rightarrow> jsstr" where
  "cardKey lower c = trim (lower (name c))"

text \<open>
  The \<open>Map\<close> from card name to variants keeps its keys in insertion order: an association
  list in which a new key goes to the end and a known key gets the card appended.
\<close>

fun groupPush :: "(jsstr \<times> card list) list \<Rightarrow> jsstr \<Rightarrow> card \<Rightarrow> (jsstr \<times> card list) list" where
  "groupPush [] k c = [(k, [c])]"
| "groupPush ((k', cs) # gs) k c =
     (if k' = k then (k', cs @ [c]) # gs else (k', cs) # groupPush gs k c)"

definition cardGroups :: "(jsstr \<Rightarrow> jsstr) \<Rightarrow> card list \<Rightarrow> (jsstr \<times> card list) list" where
  "cardGroups lower cards =
     foldl (\<lambda>groups c. groupPush groups (cardKey lower c) c) [] cards"

definition cmpAvailable :: "card \<Rightarrow> card \<Rightarrow> int" where
  "cmpAvailable a b =
     (let priceDiff = price a - price b
      in if priceDiff \<noteq> 0 then priceDiff
         else if foil a \<noteq> foil b then (if foil a then 1 else - 1)
         else 0)"

definition cmpPrice :: "card \<Rightarrow> card \<Rightarrow> int" where
  "cmpPrice a b = price a - price b"

definition first_of :: "'a list \<Rightarrow> 'a option" where
  "first_of xs = (case xs of [] \<Rightarrow> None | x # _ \<Rightarrow> Some x)"

definition bestCard :: "card list \<Rightarrow> card option" where
  "bestCard cardVariants =
     (let availableCards = filter (\<lambda>c. num_gt0 (stock c) \<and> 0 < price c) cardVariants
      in if 0 < length availableCards
         then first_of (js_sort cmpAvailable availableCards)
         else let validPriceCards = filter (\<lambda>c. 0 < price c) cardVariants
              in if 0 < length validPriceCards
                 then first_of (js_sort cmpPrice validPriceCards)
                 else None)"

definition consolidateCards :: "(jsstr \<Rightarrow> jsstr) \<Rightarrow> card list \<Rightarrow> card list" where
  "consolidateCards lower cards =
     List.map_filter (\<lambda>(cardName, cardVariants). bestCard cardVariants)
       (cardGroups lower cards)"

section \<open>Enumerating the collections\<close>

text \<open>
  An anchor element of the catalogue: its \<open>href\<close> attribute, if it has one, and its text.
\<close>

record anchor =
  href :: "jsstr option"
  anchor_text :: jsstr

definition BASE_URL :: jsstr where
  "BASE_URL = js ''https://www.outpost.be/website/''"

definition getCollectionUrl :: "jsstr \<Rightarrow> jsstr" where
  "getCollectionUrl collId =
     BASE_URL @
     js ''index.php?option=com_outpostshop&Itemid=4&view=productlist&catalogid=1&collectionid='' @
     collId"

text \<open>
  \<open>href.match(/collectionid=(\d+)/)\<close>, the captured digits of the leftmost match.
\<close>

fun collectionIdMatch :: "jsstr \<Rightarrow> jsstr option" where
  "collectionIdMatch [] = None"
| "collectionIdMatch (c # cs) =
     (let ds = takeWhile is_digit (drop 13 (c # cs))
      in if startsWith (c # cs) (js ''collectionid='') \<and> ds \<noteq> [] then Some ds
         else collectionIdMatch cs)"

text \<open>
  parseCollectionsFromHTML (the saved snapshot): the anchors selected by
  \<open>.catalog_list_element a\<close>, or \<open>None\<close> when the file does not exist. The loop state is
  the list of collections and the set \<open>seen\<close> of keys.
\<close>

definition collectionKey :: "jsstr \<Rightarrow> jsstr \<Rightarrow> jsstr" where
  "collectionKey collId nm = collId @ js ''-'' @ nm"

definition snapshotStep ::
  "collection_ref list \<times> jsstr set \<Rightarrow> anchor \<Rightarrow> collection_ref list \<times> jsstr set" where
  "snapshotStep st a =
     (let (collections, seen) = st; nm = trim (anchor_text a)
      in case href a of
           None \<Rightarrow> st
         | Some h \<Rightarrow>
             if h \<noteq> [] \<and> nm \<noteq> []
             then (case collectionIdMatch h of
                     None \<Rightarrow> st
                   | Some collId \<Rightarrow>
                       let key = collectionKey collId nm
                       in if key \<notin> seen
                          then (collections @
                                  [\<lparr>cname = nm, cid = collId,
                                    curl = getCollectionUrl collId\<rparr>],
                                insert key seen)
                          else st)
             else st)"

definition parseCollectionsFromHTML :: "anchor list option \<Rightarrow> collection_ref list" where
  "parseCollectionsFromHTML snapshot =
     (case snapshot of
        None \<Rightarrow> []
      | Some anchors \<Rightarrow> fst (foldl snapshotStep ([], {}) anchors))"

text \<open>
  parseCollections (the live catalogue page): the anchors selected by
  \<open>a[href*="collectionid="]\<close>, or \<open>None\<close> when the request fails. An anchor without
  \<open>href\<close> would make \<open>href.match\<close> throw; the \<open>catch\<close> of the function then returns the
  empty list, as it does for a failed request.
\<close>

definition liveStep :: "collection_ref list \<Rightarrow> anchor \<Rightarrow> collection_ref list option" where
  "liveStep collections a =
     (case href a of
        None \<Rightarrow> None
      | Some h \<Rightarrow>
          (case collectionIdMatch h of
             None \<Rightarrow> Some collections
           | Some collId \<Rightarrow>
               let collectionName = trim (anchor_text a)
               in if collectionName \<noteq> [] \<and> 2 < length collectionName
                  then Some (collections @
                         [\<lparr>cname = collectionName, cid = collId,
                           curl = (if startsWith h (js ''http'') then h else BASE_URL @ h)\<rparr>])
                  else Some collections))"

fun liveLoop :: "collection_ref list \<Rightarrow> anchor list \<Rightarrow> collection_ref list option" where
  "liveLoop collections [] = Some collections"
| "liveLoop collections (a # as) =
     (case liveStep collections a of
        None \<Rightarrow> None
      | Some collections' \<Rightarrow> liveLoop collections' as)"

definition parseCollections :: "anchor list option \<Rightarrow> collection_ref list" where
  "parseCollections response =
     (case response of
        None \<Rightarrow> []
      | Some anchors \<Rightarrow>
          (case liveLoop [] anchors of None \<Rightarrow> [] | Some collections \<Rightarrow> collections))"

text \<open>
  The priority sort of scrapeOutpost. The list of priority terms is a constant of the
  script; the comparator is modelled over any list.
\<close>

definition priorityCollections :: "jsstr list" where
  "priorityCollections =
     map js [''Final Fantasy'', ''Foundations'', ''Duskmourn'', ''Bloomburrow'',
       ''Modern Horizons 3'', ''Outlaws of Thunder Junction'', ''Murders at Karlov Manor'',
       ''Commander'', ''Secret Lair Drop Series'']"

fun findIndex_from :: "int \<Rightarrow> ('a \<Rightarrow> bool) \<Rightarrow> 'a list \<Rightarrow> int" where
  "findIndex_from i P [] = - 1"
| "findIndex_from i P (x # xs) = (if P x then i else findIndex_from (i + 1) P xs)"

definition findIndex :: "('a \<Rightarrow> bool) \<Rightarrow> 'a list \<Rightarrow> int" where
  "findIndex P xs = findIndex_from 0 P xs"

definition cmpPriority :: "jsstr list \<Rightarrow> collection_ref \<Rightarrow> collection_ref \<Rightarrow> int" where
  "cmpPriority prio a b =
     (let aIndex = findIndex (\<lambda>p. str_includes (cname a) p) prio;
          bIndex = findIndex (\<lambda>p. str_includes (cname b) p) prio
      in if aIndex \<noteq> - 1 \<and> bIndex \<noteq> - 1 then aIndex - bIndex
         else if aIndex \<noteq> - 1 then - 1
         else if bIndex \<noteq> - 1 then 1
         else 0)"

definition sortCollections :: "jsstr list \<Rightarrow> collection_ref list \<Rightarrow> collection_ref list" where
  "sortCollections prio collections = js_sort (cmpPriority prio) collections"

section \<open>The deck analysis of the user interface: analyzeDeck\<close>

text \<open>
  The callback that analyzeDeck maps over the cards of a deck. The inventory is the list
  of cards of the output file (interface OutpostCard, the shape of the scraper's cards);
  a deck card has a name, a set and a requested quantity. Prices in euros are binary64
  numbers: \<open>price / 100\<close> is rounded by \<open>to_double\<close>.
\<close>

record moxfield_card =
  mx_id :: jsstr
  mx_name :: jsstr
  mx_set :: jsstr
  mx_quantity :: int

record card_availability =
  cardName :: jsstr
  requestedQuantity :: int
  availableCards :: "card list"
  totalAvailable :: int
  cheapestPrice :: rat
  averagePrice :: rat
  isFullyAvailable :: bool

definition qualityOrder :: "jsstr list" where
  "qualityOrder = map js [''NM/M'', ''EX/GD'', ''SP/P'', ''HP'', ''PR'']"

definition hasValidPriceCondition :: "card \<Rightarrow> bool" where
  "hasValidPriceCondition outpostCard \<longleftrightarrow> list_ex (\<lambda>c. 0 < price c) (conditions outpostCard)"

text \<open>
  Steps 1 to 3 and the price filter: the exact matches; if there are none, the cards
  whose name contains the requested name; if there are none either, the cards whose name
  is contained in the requested name; of these, the cards with a priced condition.
\<close>

definition matchByName :: "(jsstr \<Rightarrow> jsstr) \<Rightarrow> card list \<Rightarrow> moxfield_card \<Rightarrow> card list" where
  "matchByName lower outpostData dc =
     (let step1 = filter (\<lambda>oc. lower (name oc) = lower (mx_name dc)) outpostData;
          step2 = (if length step1 = 0
                   then filter (\<lambda>oc. str_includes (lower (name oc)) (lower (mx_name dc)))
                          outpostData
                   else step1);
          step3 = (if length step2 = 0
                   then filter (\<lambda>oc. str_includes (lower (mx_name dc)) (lower (name oc)))
                          outpostData
                   else step2)
      in filter hasValidPriceCondition step3)"

definition setMatches :: "(jsstr \<Rightarrow> jsstr) \<Rightarrow> moxfield_card \<Rightarrow> card \<Rightarrow> bool" where
  "setMatches lower dc oc \<longleftrightarrow>
     mx_set dc = [] \<or>
     (case set_label oc of
        None \<Rightarrow> True
      | Some s \<Rightarrow> s = [] \<or> str_includes (lower s) (lower (mx_set dc)) \<or>
                  str_includes (lower (mx_set dc)) (lower s))"

definition styleFilter ::
  "(jsstr \<Rightarrow> jsstr) \<Rightarrow> bool \<Rightarrow> moxfield_card \<Rightarrow> card list \<Rightarrow> card list" where
  "styleFilter lower matchCardStyle dc avail =
     (if matchCardStyle
      then (let matchingCards = filter (setMatches lower dc) avail
            in if 0 < length matchingCards then matchingCards else avail)
      else avail)"

text \<open>
  \<open>candidateCards.reduce((best, current) => current.condition.price < best.condition.price
  ? current : best)\<close> on a non-empty array, and one pass of the loop over the quality
  tiers: the first tier with a candidate decides. \<open>ok\<close> is the test on the offers besides
  the tier label.
\<close>

fun cheapestInTier :: "(card \<times> condition_offer) list \<Rightarrow> card \<times> condition_offer" where
  "cheapestInTier (x # xs) =
     foldl (\<lambda>best current. if price (snd current) < price (snd best) then current else best)
       x xs"

definition candidateCards ::
  "(condition_offer \<Rightarrow> bool) \<Rightarrow> jsstr \<Rightarrow> card list \<Rightarrow> (card \<times> condition_offer) list" where
  "candidateCards ok quality avail =
     concat (map (\<lambda>oc. map (\<lambda>co. (oc, co))
                          (filter (\<lambda>co. condition co = quality \<and> ok co) (conditions oc)))
               avail)"

fun tierLoop ::
  "(condition_offer \<Rightarrow> bool) \<Rightarrow> jsstr list \<Rightarrow> card list \<Rightarrow> (card \<times> condition_offer) option" where
  "tierLoop ok [] avail = None"
| "tierLoop ok (quality # rest) avail =
     (let cands = candidateCards ok quality avail
      in if 0 < length cands then Some (cheapestInTier cands) else tierLoop ok rest avail)"

definition priceEuros :: "(card \<times> condition_offer) option \<Rightarrow> rat" where
  "priceEuros found =
     (case found of None \<Rightarrow> 0 | Some (oc, co) \<Rightarrow> to_double (of_int (price co) / 100))"

text \<open>
  The two loops: first over the offers that are priced and in stock; when that leaves
  \<open>bestPrice\<close> at 0, over the offers that are priced. The result is the offer behind
  \<open>bestPrice\<close>, \<open>bestCard\<close> and \<open>bestCondition\<close>.
\<close>

definition bestOffer :: "card list \<Rightarrow> (card \<times> condition_offer) option" where
  "bestOffer avail =
     (let inStock = tierLoop (\<lambda>co. 0 < price co \<and> num_gt0 (stock co)) qualityOrder avail
      in if priceEuros inStock = 0
         then (case tierLoop (\<lambda>co. 0 < price co) qualityOrder avail of
                 None \<Rightarrow> inStock
               | Some found \<Rightarrow> Some found)
         else inStock)"

definition bestPrice :: "card list \<Rightarrow> rat" where
  "bestPrice avail = priceEuros (bestOffer avail)"

text \<open>
  The stock that counts: per card the sum of the stock of its priced conditions, 0 when
  that sum is \<open>NaN\<close> or 0 (\<open>|| 0\<close>).
\<close>

definition cardStock :: "card \<Rightarrow> int" where
  "cardStock oc =
     (case foldl (\<lambda>condSum co. if 0 < price co then num_add condSum (stock co) else condSum)
             (Num 0) (conditions oc) of
        NaN \<Rightarrow> 0
      | Num n \<Rightarrow> n)"

definition average :: "rat list \<Rightarrow> rat" where
  "average validPrices =
     (if 0 < length validPrices
      then to_double (foldl (\<lambda>sum p. to_double (sum + p)) 0 validPrices /
                      of_nat (length validPrices))
      else 0)"

definition cardAvailabilityOf ::
  "(jsstr \<Rightarrow> jsstr) \<Rightarrow> card list \<Rightarrow> bool \<Rightarrow> moxfield_card \<Rightarrow> card_availability" where
  "cardAvailabilityOf lower outpostData matchCardStyle dc =
     (let avail = styleFilter lower matchCardStyle dc (matchByName lower outpostData dc);
          total = foldl (\<lambda>sum oc. sum + cardStock oc) 0 avail;
          validPrices = concat (map (\<lambda>oc. map (\<lambda>co. to_double (of_int (price co) / 100))
                                              (filter (\<lambda>co. 0 < price co) (conditions oc)))
                                  avail)
      in \<lparr>cardName = mx_name dc,
          requestedQuantity = mx_quantity dc,
          availableCards = avail,
          totalAvailable = total,
          cheapestPrice = bestPrice avail,
          averagePrice = average validPrices,
          isFullyAvailable = (mx_quantity dc \<le> total)\<rparr>)"

definition analyzeDeck ::
  "(jsstr \<Rightarrow> jsstr) \<Rightarrow> card list \<Rightarrow> bool \<Rightarrow> moxfield_card list \<Rightarrow> card_availability list" where
  "analyzeDeck lower outpostData matchCardStyle allCards =
     map (cardAvailabilityOf lower outpostData matchCardStyle) allCards"

section \<open>The orchestrator: scrapeAllCollections\<close>

text \<open>
  The run of the complete scraper over a world: the saved snapshot of the catalogue, the
  progress file, the output file, the clock, the shop (the reply to the n-th request of
  the run, \<open>None\<close> for a request that fails) and the file system (whether the n-th write
  of the run fails, and whether deleting the progress file fails). Delays and console
  output are left out.
\<close>

record scrape_config =
  maxRetries :: nat
  batchSize :: nat
  enableProgressSaving :: bool
  resumeFromProgress :: bool
  skipEmptyCollections :: bool

definition config :: scrape_config where
  "config = \<lparr>maxRetries = 3, batchSize = 25, enableProgressSaving = True,
              resumeFromProgress = True, skipEmptyCollections = True\<rparr>"

text \<open>
  The progress file. An entry of \<open>skippedCollectionIds\<close> is \<open>None\<close> where the file holds
  \<open>null\<close>.
\<close>

record progress =
  p_timestamp :: jsstr
  p_collectionsProcessed :: nat
  p_collectionsSkipped :: nat
  p_totalCards :: nat
  p_processedCollectionIds :: "jsstr list"
  p_skippedCollectionIds :: "jsstr option list"
  p_cards :: "card list"

datatype progress_file = Unparseable | Saved progress

text \<open>
  The output file: the final shape and the reduced shape of an aborted run. In the
  metadata block a skipped collection is listed with its name and id, each \<open>None\<close>
  where the property is \<open>undefined\<close>.
\<close>

record output_metadata =
  m_scrapeConfig :: scrape_config
  m_skippedCollections :: "(jsstr option \<times> jsstr option) list"
  m_processedCollectionsSample :: "(jsstr \<times> jsstr) list"

record final_output =
  o_lastUpdated :: jsstr
  o_totalCards :: nat
  o_collectionsProcessed :: nat
  o_collectionsSkipped :: nat
  o_totalCollections :: nat
  o_completionPercentage :: jsstr
  o_cards :: "card list"
  o_metadata :: output_metadata

record partial_output =
  po_lastUpdated :: jsstr
  po_totalCards :: nat
  po_collectionsProcessed :: nat
  po_isPartial :: bool
  po_cards :: "card list"

datatype output_file = Final final_output | Partial partial_output

record world =
  snapshot :: "anchor list option"
  progress_json :: "progress_file option"
  output_json :: "output_file option"
  now :: jsstr
  respond :: "nat \<Rightarrow> jsstr \<Rightarrow> card_element list option"
  requests :: nat
  write_fails :: "nat \<Rightarrow> bool"
  writes :: nat
  unlink_fails :: bool

text \<open>
  \<open>fs.writeFileSync\<close> on the progress path and on the output path: the flag tells whether
  the write succeeded; a failed write throws.
\<close>

definition writeProgress :: "progress \<Rightarrow> world \<Rightarrow> bool \<times> world" where
  "writeProgress p w =
     (if write_fails w (writes w) then (False, w\<lparr>writes := Suc (writes w)\<rparr>)
      else (True, w\<lparr>progress_json := Some (Saved p), writes := Suc (writes w)\<rparr>))"

definition writeOutput :: "output_file \<Rightarrow> world \<Rightarrow> bool \<times> world" where
  "writeOutput out w =
     (if write_fails w (writes w) then (False, w\<lparr>writes := Suc (writes w)\<rparr>)
      else (True, w\<lparr>output_json := Some out, writes := Suc (writes w)\<rparr>))"

text \<open>
  hasCards: one request; a page with a card container gives true, a failed request false.
\<close>

definition hasCards :: "collection_ref \<Rightarrow> world \<Rightarrow> bool \<times> world" where
  "hasCards coll w =
     ((case respond w (requests w) (curl coll) of None \<Rightarrow> False | Some els \<Rightarrow> 0 < length els),
      w\<lparr>requests := Suc (requests w)\<rparr>)"

text \<open>
  scrapeCollectionWithRetry: the loop over the attempts, by the number of attempts that
  remain. The last failed attempt returns the empty list. A loop that ends without a
  return gives \<open>undefined\<close> (\<open>None\<close>), which is the case only for \<open>maxRetries = 0\<close>.
\<close>

fun scrapeAttempts :: "nat \<Rightarrow> collection_ref \<Rightarrow> world \<Rightarrow> card list option \<times> world" where
  "scrapeAttempts 0 coll w = (None, w)"
| "scrapeAttempts (Suc n) coll w =
     (case respond w (requests w) (curl coll) of
        Some els \<Rightarrow> (Some (scrapeCollection coll els), w\<lparr>requests := Suc (requests w)\<rparr>)
      | None \<Rightarrow>
          if n = 0 then (Some [], w\<lparr>requests := Suc (requests w)\<rparr>)
          else scrapeAttempts n coll (w\<lparr>requests := Suc (requests w)\<rparr>))"

definition scrapeCollectionWithRetry :: "collection_ref \<Rightarrow> world \<Rightarrow> card list option \<times> world" where
  "scrapeCollectionWithRetry coll w = scrapeAttempts (maxRetries config) coll w"

text \<open>
  The variables of the \<open>try\<close> block. \<open>skippedCollections\<close> starts as the list of ids of the
  progress file and then receives collection objects. The two \<open>Set\<close>s are lists without
  repetition, in insertion order.
\<close>

datatype skipped_entry = SkippedId "jsstr option" | SkippedCollection collection_ref

record run_state =
  allCards :: "card list"
  collectionsProcessed :: nat
  skippedCollections :: "skipped_entry list"
  processedCollectionIds :: "jsstr list"
  skippedCollectionIds :: "jsstr option list"

definition set_add :: "'a \<Rightarrow> 'a list \<Rightarrow> 'a list" where
  "set_add x xs = (if x \<in> set xs then xs else xs @ [x])"

definition loadProgress :: "world \<Rightarrow> progress option" where
  "loadProgress w =
     (if \<not> resumeFromProgress config then None
      else case progress_json w of
             None \<Rightarrow> None
           | Some Unparseable \<Rightarrow> None
           | Some (Saved p) \<Rightarrow> Some p)"

definition initial_state :: "progress option \<Rightarrow> run_state" where
  "initial_state pr =
     (case pr of
        None \<Rightarrow>
          \<lparr>allCards = [], collectionsProcessed = 0, skippedCollections = [],
           processedCollectionIds = [], skippedCollectionIds = []\<rparr>
      | Some p \<Rightarrow>
          \<lparr>allCards = p_cards p,
           collectionsProcessed = p_collectionsProcessed p,
           skippedCollections = map SkippedId (p_skippedCollectionIds p),
           processedCollectionIds = foldl (\<lambda>s x. set_add x s) [] (p_processedCollectionIds p),
           skippedCollectionIds = foldl (\<lambda>s x. set_add x s) [] (p_skippedCollectionIds p)\<rparr>)"

text \<open>
  saveProgress. \<open>skippedCollections.map(c => c.id)\<close> gives the id of a collection object,
  \<open>undefined\<close> (written as \<open>null\<close>) for an id string, and throws for \<open>null\<close>.
\<close>

fun skipped_ids :: "skipped_entry list \<Rightarrow> jsstr option list option" where
  "skipped_ids [] = Some []"
| "skipped_ids (SkippedCollection c # es) = map_option ((#) (Some (cid c))) (skipped_ids es)"
| "skipped_ids (SkippedId (Some i) # es) = map_option ((#) None) (skipped_ids es)"
| "skipped_ids (SkippedId None # es) = None"

definition saveProgress :: "run_state \<Rightarrow> world \<Rightarrow> bool \<times> world" where
  "saveProgress st w =
     (if \<not> enableProgressSaving config then (True, w)
      else case skipped_ids (skippedCollections st) of
             None \<Rightarrow> (False, w)
           | Some ids \<Rightarrow>
               writeProgress
                 \<lparr>p_timestamp = now w,
                  p_collectionsProcessed = collectionsProcessed st,
                  p_collectionsSkipped = length (skippedCollections st),
                  p_totalCards = length (allCards st),
                  p_processedCollectionIds = processedCollectionIds st,
                  p_skippedCollectionIds = ids,
                  p_cards = allCards st\<rparr> w)"

text \<open>
  The entries of the metadata block for skipped collections,
  \<open>cs.map(c => ({name: c.name, id: c.id}))\<close>: name and id of a collection object,
  two \<open>undefined\<close> for an id string; \<open>null\<close> makes the property access throw.
\<close>

fun skipped_sample :: "skipped_entry list \<Rightarrow> (jsstr option \<times> jsstr option) list option" where
  "skipped_sample [] = Some []"
| "skipped_sample (SkippedCollection c # es) =
     map_option ((#) (Some (cname c), Some (cid c))) (skipped_sample es)"
| "skipped_sample (SkippedId (Some i) # es) = map_option ((#) (None, None)) (skipped_sample es)"
| "skipped_sample (SkippedId None # es) = None"

text \<open>
  \<open>x.toFixed(1)\<close> for a binary64 number \<open>x\<close> that is not negative: the integer \<open>n\<close> with
  \<open>n / 10\<close> nearest to \<open>x\<close>, the larger one at a tie, written with one decimal. And
  \<open>((collectionsProcessed / allCollections.length) * 100).toFixed(1)\<close>.
\<close>

definition toFixed1 :: "rat \<Rightarrow> jsstr" where
  "toFixed1 x =
     (let n = nat \<lfloor>x * 10 + 1 / 2\<rfloor>
      in dec_digits (n div 10) @ [46, 48 + n mod 10])"

definition completionPercentage :: "nat \<Rightarrow> nat \<Rightarrow> jsstr" where
  "completionPercentage processed n =
     toFixed1 (to_double (to_double (of_nat processed / of_nat n) * 100))"

definition skipCollection :: "collection_ref \<Rightarrow> run_state \<Rightarrow> run_state" where
  "skipCollection coll st =
     st\<lparr>skippedCollections := skippedCollections st @ [SkippedCollection coll],
        skippedCollectionIds := set_add (Some (cid coll)) (skippedCollectionIds st)\<rparr>"

definition addCards :: "collection_ref \<Rightarrow> card list \<Rightarrow> run_state \<Rightarrow> run_state" where
  "addCards coll cs st =
     st\<lparr>allCards := allCards st @ cs,
        processedCollectionIds := set_add (cid coll) (processedCollectionIds st),
        collectionsProcessed := Suc (collectionsProcessed st)\<rparr>"

text \<open>
  The loop over the collections to process. \<open>Inr\<close> is the state and world at the end of
  the loop, \<open>Inl\<close> the state and world at the point where an exception is thrown.
\<close>

fun processCollections ::
  "collection_ref list \<Rightarrow> run_state \<Rightarrow> world \<Rightarrow> (run_state \<times> world) + (run_state \<times> world)" where
  "processCollections [] st w = Inr (st, w)"
| "processCollections (coll # rest) st w =
     (let check = (if skipEmptyCollections config then hasCards coll w else (True, w))
      in if \<not> fst check then processCollections rest (skipCollection coll st) (snd check)
         else let scraped = scrapeCollectionWithRetry coll (snd check)
              in case fst scraped of
                   None \<Rightarrow> Inl (st, snd scraped)
                 | Some cs \<Rightarrow>
                     let st' = (if length cs = 0 then skipCollection coll st
                                else addCards coll cs st)
                     in if (collectionsProcessed st' + length (skippedCollections st'))
                             mod batchSize config = 0
                        then (let saved = saveProgress st' (snd scraped)
                              in if fst saved then processCollections rest st' (snd saved)
                                 else Inl (st', snd saved))
                        else processCollections rest st' (snd scraped))"

text \<open>
  The body of the \<open>try\<close> block. \<open>Inr\<close> is the world after a run that completes (also the
  run that finds no collection and returns), \<open>Inl\<close> the variables of the block and the
  world at a throw. After the loop an exception is thrown by the metadata block when
  one of the first ten skipped entries is \<open>null\<close>, by a failed write of the output, and
  by a failed deletion of the progress file.
\<close>

definition try_block :: "(jsstr \<Rightarrow> jsstr) \<Rightarrow> world \<Rightarrow> (run_state \<times> world) + world" where
  "try_block lower w =
     (let allCollections = parseCollectionsFromHTML (snapshot w)
      in if length allCollections = 0 then Inr w
         else let st0 = initial_state (loadProgress w);
                  collectionsToProcess =
                    filter (\<lambda>c. cid c \<notin> set (processedCollectionIds st0) \<and>
                                Some (cid c) \<notin> set (skippedCollectionIds st0))
                      allCollections
              in case processCollections collectionsToProcess st0 w of
                   Inl thrown \<Rightarrow> Inl thrown
                 | Inr (st, w1) \<Rightarrow>
                     let uniqueCards = consolidateCards lower (allCards st)
                     in case skipped_sample (take 10 (skippedCollections st)) of
                          None \<Rightarrow> Inl (st, w1)
                        | Some skippedSample \<Rightarrow>
                            let written = writeOutput
                                  (Final
                                     \<lparr>o_lastUpdated = now w1,
                                      o_totalCards = length uniqueCards,
                                      o_collectionsProcessed = collectionsProcessed st,
                                      o_collectionsSkipped = length (skippedCollections st),
                                      o_totalCollections = length allCollections,
                                      o_completionPercentage =
                                        completionPercentage (collectionsProcessed st)
                                          (length allCollections),
                                      o_cards = uniqueCards,
                                      o_metadata =
                                        \<lparr>m_scrapeConfig = config,
                                         m_skippedCollections = skippedSample,
                                         m_processedCollectionsSample =
                                           map (\<lambda>c. (cname c, cid c))
                                             (take 10
                                                (filter
                                                   (\<lambda>c. cid c \<in> set (processedCollectionIds st))
                                                   allCollections))\<rparr>\<rparr>) w1
                            in if \<not> fst written then Inl (st, snd written)
                               else if progress_json (snd written) = None then Inr (snd written)
                               else if unlink_fails (snd written) then Inl (st, snd written)
                               else Inr ((snd written)\<lparr>progress_json := None\<rparr>))"

text \<open>
  Identifiers and scopes. A scope maps the identifiers that are declared to their
  values. At the \<open>catch\<close> clause the declared identifiers are those of the module and of
  the function body (\<open>startTime\<close>) and the parameter \<open>error\<close>: \<open>allCards\<close> and
  \<open>collectionsProcessed\<close> are declared with \<open>let\<close> inside the \<open>try\<close> block and are in
  scope only there. \<open>try_scope\<close> is the scope at a statement of the \<open>try\<close> block.
\<close>

datatype binding = CardsVal "card list" | CountVal nat | OtherVal

type_synonym scope = "string \<Rightarrow> binding option"

definition function_scope :: scope where
  "function_scope x =
     (if x \<in> set [''fs'', ''path'', ''axios'', ''cheerio'', ''BASE_URL'', ''CATALOG_URL'',
                   ''getCollectionUrl'', ''delay'', ''config'', ''parseCollectionsFromHTML'',
                   ''hasCards'', ''scrapeCollectionWithRetry'', ''parseCardData'',
                   ''scrapeCollection'', ''saveProgress'', ''loadProgress'',
                   ''consolidateCards'', ''scrapeAllCollections'', ''startTime'', ''error'']
      then Some OtherVal else None)"

definition try_scope :: "run_state \<Rightarrow> scope" where
  "try_scope st =
     function_scope(''allCards'' \<mapsto> CardsVal (allCards st),
                    ''collectionsProcessed'' \<mapsto> CountVal (collectionsProcessed st))"

text \<open>
  The \<open>catch\<close> clause, over the scope it is evaluated in.
  \<open>typeof allCards !== 'undefined'\<close> is false for an identifier that is not declared;
  \<open>collectionsProcessed || 0\<close> throws for one.
\<close>

definition catch_block :: "scope \<Rightarrow> world \<Rightarrow> world" where
  "catch_block sc w =
     (case sc ''allCards'' of
        Some (CardsVal cs) \<Rightarrow>
          if 0 < length cs
          then (case sc ''collectionsProcessed'' of
                  Some (CountVal n) \<Rightarrow>
                    snd (writeOutput
                           (Partial \<lparr>po_lastUpdated = now w, po_totalCards = length cs,
                                     po_collectionsProcessed = n, po_isPartial = True,
                                     po_cards = cs\<rparr>) w)
                | _ \<Rightarrow> w)
          else w
      | _ \<Rightarrow> w)"

definition scrapeAllCollections :: "(jsstr \<Rightarrow> jsstr) \<Rightarrow> world \<Rightarrow> world" where
  "scrapeAllCollections lower w =
     (case try_block lower w of
        Inr w' \<Rightarrow> w'
      | Inl (st, w') \<Rightarrow> catch_block function_scope w')"

section \<open>Scenario data\<close>

text \<open>
  The two sale rows of the extraction scenario, (NM/M, stock 3, 1.50 EUR) and
  (HP, stock 0, 0.00 EUR), inside a container named Sol Ring with a set label; and a
  collection.
\<close>

definition scenario_rows :: "sale_element list" where
  "scenario_rows =
     [\<lparr>quality_text = js ''NM/M'', stock_elements = [(js ''ostk1001'', js ''3'')],
       price_text = js ''1.50 '' @ euro\<rparr>,
      \<lparr>quality_text = js ''HP'', stock_elements = [(js ''ostk1002'', js ''0'')],
       price_text = js ''0.00 '' @ euro\<rparr>]"

definition scenario_element :: card_element where
  "scenario_element =
     \<lparr>attrs = [''elnm'' \<mapsto> js ''Sol Ring'', ''magicrarity'' \<mapsto> js ''U'',
               ''foil'' \<mapsto> js ''0''],
      sales = scenario_rows,
      set_element = Some (js ''Commander Masters''),
      img_src = None, detail_href = None\<rparr>"

definition scenario_collection :: collection_ref where
  "scenario_collection =
     \<lparr>cname = js ''Commander Masters'', cid = js ''1234'',
      curl = getCollectionUrl (js ''1234'')\<rparr>"

text \<open>A sale row with a blank condition label, a price of 1.50 EUR and a stock of 3.\<close>

definition unlabelled_row :: sale_element where
  "unlabelled_row =
     \<lparr>quality_text = js ''  '', stock_elements = [(js ''ostk1003'', js ''3'')],
      price_text = js ''1.50 '' @ euro\<rparr>"

text \<open>The offer extracted from the first scenario row, and a container that is rejected.\<close>

definition scenario_offer :: condition_offer where
  "scenario_offer =
     \<lparr>price = 150, stock = Num 3, priceFormatted = js ''1.50 '' @ euro,
      condition = js ''NM/M'', outpostId = js ''1001''\<rparr>"

definition rejected_element :: card_element where
  "rejected_element =
     \<lparr>attrs = [''elnm'' \<mapsto> js ''  ''], sales = scenario_rows, set_element = None,
      img_src = None, detail_href = None\<rparr>"

section \<open>Invariants used in the proofs\<close>

text \<open>
  The loop of parseCollectionsFromHTML keeps: the collections have pairwise different
  (id, name) pairs, \<open>seen\<close> holds exactly their keys, names and ids are not empty, and ids
  are digit strings.
\<close>

definition snapshot_inv :: "collection_ref list \<times> jsstr set \<Rightarrow> bool" where
  "snapshot_inv st \<longleftrightarrow>
     distinct (map (\<lambda>c. (cid c, cname c)) (fst st)) \<and>
     snd st = (\<lambda>c. collectionKey (cid c) (cname c)) ` set (fst st) \<and>
     (\<forall>c \<in> set (fst st). cname c \<noteq> [] \<and> cid c \<noteq> [] \<and> (\<forall>d \<in> set (cid c). is_digit d))"

text \<open>
  The first element with the least key: what a stable sort by that key puts in front.
\<close>

fun first_min :: "('a \<Rightarrow> 'k :: linorder) \<Rightarrow> 'a list \<Rightarrow> 'a option" where
  "first_min k [] = None"
| "first_min k (x # xs) =
     (case first_min k xs of None \<Rightarrow> Some x | Some m \<Rightarrow> if k x \<le> k m then Some x else Some m)"

text \<open>
  The order of the comparator of the cards in stock as a key (price first, then
  non-foil before foil), the test of the first selection, and the invariant of the
  grouping loop: keys are not repeated, they are the keys of the cards read so far, and
  each group holds the cards of its key in input order.
\<close>

definition keyAvailable :: "card \<Rightarrow> int" where
  "keyAvailable c = 2 * price c + (if foil c then 1 else 0)"

definition inStock :: "card \<Rightarrow> bool" where
  "inStock c \<longleftrightarrow> num_gt0 (stock c) \<and> 0 < price c"

definition groups_inv :: "(jsstr \<Rightarrow> jsstr) \<Rightarrow> card list \<Rightarrow> (jsstr \<times> card list) list \<Rightarrow> bool" where
  "groups_inv lower cards gs \<longleftrightarrow>
     distinct (map fst gs) \<and>
     fst ` set gs = cardKey lower ` set cards \<and>
     (\<forall>g \<in> set gs. snd g = filter (\<lambda>c. cardKey lower c = fst g) cards)"

section \<open>Cards of the consolidation examples\<close>

text \<open>
  A card with one NM/M offer, given by name, collection, price, stock and foil flag.
\<close>

definition variant :: "string \<Rightarrow> string \<Rightarrow> int \<Rightarrow> int \<Rightarrow> bool \<Rightarrow> card" where
  "variant nm coll p st fl =
     \<lparr>price = p, stock = Num st, priceFormatted = [],
      name = js nm, alphabet = [], rarity = js ''U'', foil = fl,
      colors = \<lparr>white = False, blue = False, black = False, red = False, green = False,
                colorless = True\<rparr>,
      conditions = [\<lparr>price = p, stock = Num st, priceFormatted = [],
                     condition = js ''NM/M'', outpostId = []\<rparr>],
      set_label = Some (js coll), imageUrl = None, detailUrl = None,
      collection = js coll, collectionId = js ''1''\<rparr>"

definition c1_cheap :: card where "c1_cheap = variant ''Sol Ring'' ''Commander'' 100 0 False"
definition c1_dear :: card where "c1_dear = variant '' sol ring'' ''Foundations'' 500 2 False"

definition c2_foil :: card where "c2_foil = variant ''Sol Ring'' ''Commander'' 500 0 True"
definition c2_plain :: card where "c2_plain = variant ''Sol Ring'' ''Foundations'' 500 0 False"

definition sc_plain :: card where "sc_plain = variant ''Sol Ring'' ''Commander'' 500 0 False"
definition sc_foil :: card where "sc_foil = variant ''Sol Ring'' ''Foundations'' 500 2 True"

section \<open>Notions and data of the enumerator's properties\<close>

text \<open>
  The index of the first priority term that the name of a collection contains (-1 when
  there is none), the sort key it induces (collections without a term after all others),
  and the collections that contain a term.
\<close>

definition priorityIndex :: "jsstr list \<Rightarrow> collection_ref \<Rightarrow> int" where
  "priorityIndex prio c = findIndex (\<lambda>p. str_includes (cname c) p) prio"

definition priorityRank :: "jsstr list \<Rightarrow> collection_ref \<Rightarrow> int" where
  "priorityRank prio c =
     (if priorityIndex prio c = - 1 then int (length prio) else priorityIndex prio c)"

definition hasPriority :: "jsstr list \<Rightarrow> collection_ref \<Rightarrow> bool" where
  "hasPriority prio c \<longleftrightarrow> (\<exists>p \<in> set prio. str_includes (cname c) p)"

text \<open>
  The priority list and the discovered collections of the ordering scenario, and an
  anchor of the catalogue that occurs twice.
\<close>

definition mk_collection :: "string \<Rightarrow> string \<Rightarrow> collection_ref" where
  "mk_collection nm i = \<lparr>cname = js nm, cid = js i, curl = getCollectionUrl (js i)\<rparr>"

definition scenario_priority :: "jsstr list" where
  "scenario_priority = map js [''Bloomburrow'', ''Commander'']"

definition scenario_discovered :: "collection_ref list" where
  "scenario_discovered =
     [mk_collection ''Foundations'' ''1'', mk_collection ''Bloomburrow: Alania'' ''2'',
      mk_collection ''Commander Masters'' ''3'']"

definition dup_anchor :: anchor where
  "dup_anchor =
     \<lparr>href = Some (js ''index.php?option=com_outpostshop&view=productlist'' @
                    js ''&catalogid=1&collectionid=1234''),
      anchor_text = js ''Foundations''\<rparr>"


section \<open>Notions and data of the deck analysis properties\<close>

text \<open>
  The cards that match a requested name, before the price filter. An offer that is
  priced and in stock, and one that is priced. \<open>anyOffer ok\<close>: some available card has an
  \<open>ok\<close> offer in one of the five tiers. \<open>bestInTier ok\<close>: the offer is an \<open>ok\<close> offer of an
  available card, its tier is the first tier of the quality order with an \<open>ok\<close> offer,
  and no \<open>ok\<close> offer of that tier is cheaper.
\<close>

definition nameMatches :: "(jsstr \<Rightarrow> jsstr) \<Rightarrow> card list \<Rightarrow> moxfield_card \<Rightarrow> card list" where
  "nameMatches lower outpostData dc =
     (let exact = filter (\<lambda>oc. lower (name oc) = lower (mx_name dc)) outpostData;
          containing =
            filter (\<lambda>oc. str_includes (lower (name oc)) (lower (mx_name dc))) outpostData;
          contained =
            filter (\<lambda>oc. str_includes (lower (mx_name dc)) (lower (name oc))) outpostData
      in if exact \<noteq> [] then exact else if containing \<noteq> [] then containing else contained)"

definition anyOffer :: "(condition_offer \<Rightarrow> bool) \<Rightarrow> card list \<Rightarrow> bool" where
  "anyOffer ok avail \<longleftrightarrow>
     (\<exists>oc \<in> set avail. \<exists>co \<in> set (conditions oc). ok co \<and> condition co \<in> set qualityOrder)"

definition bestInTier :: "(condition_offer \<Rightarrow> bool) \<Rightarrow> card list \<Rightarrow> card \<times> condition_offer \<Rightarrow> bool" where
  "bestInTier ok avail r \<longleftrightarrow>
     fst r \<in> set avail \<and> snd r \<in> set (conditions (fst r)) \<and> ok (snd r) \<and>
     (\<exists>i < length qualityOrder.
        condition (snd r) = qualityOrder ! i \<and>
        (\<forall>oc \<in> set avail. \<forall>co \<in> set (conditions oc).
           ok co \<longrightarrow> (\<forall>j < i. condition co \<noteq> qualityOrder ! j) \<and>
                    (condition co = qualityOrder ! i \<longrightarrow> price (snd r) \<le> price co)))"

definition stockedOffer :: "condition_offer \<Rightarrow> bool" where
  "stockedOffer co \<longleftrightarrow> 0 < price co \<and> num_gt0 (stock co)"

definition pricedOffer :: "condition_offer \<Rightarrow> bool" where
  "pricedOffer co \<longleftrightarrow> 0 < price co"

text \<open>
  The cards kept for a requested name (matched by name, with a priced condition), and
  the available cards of the analysis of a requested card.
\<close>

definition keptCards :: "(jsstr \<Rightarrow> jsstr) \<Rightarrow> card list \<Rightarrow> moxfield_card \<Rightarrow> card list" where
  "keptCards lower outpostData dc =
     filter hasValidPriceCondition (nameMatches lower outpostData dc)"

definition availableFor ::
  "(jsstr \<Rightarrow> jsstr) \<Rightarrow> card list \<Rightarrow> bool \<Rightarrow> moxfield_card \<Rightarrow> card list" where
  "availableFor lower outpostData style dc =
     availableCards (cardAvailabilityOf lower outpostData style dc)"

text \<open>
  A request for Sol Ring of the set cmm, and inventories: one card with two offers, NM/M
  at 1000 and HP at 100, both out of stock; a card whose name contains the requested
  name (500, in stock) and a card whose name is contained in it (50, in stock); two
  cards named Sol Ring, of the set CMM (26, out of stock) and of the set Foundations
  (100, in stock); a card whose only offer has a label outside the five tiers.
\<close>

definition c4_nm :: condition_offer where
  "c4_nm = \<lparr>price = 1000, stock = Num 0, priceFormatted = js ''10.00 '' @ euro,
            condition = js ''NM/M'', outpostId = js ''2001''\<rparr>"

definition c4_hp :: condition_offer where
  "c4_hp = \<lparr>price = 100, stock = Num 0, priceFormatted = js ''1.00 '' @ euro,
            condition = js ''HP'', outpostId = js ''2002''\<rparr>"

definition c4_card :: card where
  "c4_card = (variant ''Sol Ring'' ''Commander'' 100 0 False)\<lparr>conditions := [c4_nm, c4_hp]\<rparr>"

definition c4_request :: moxfield_card where
  "c4_request =
     \<lparr>mx_id = js ''abc'', mx_name = js ''sol ring'', mx_set = js ''cmm'', mx_quantity = 1\<rparr>"

definition plain_offer :: "int \<Rightarrow> int \<Rightarrow> condition_offer" where
  "plain_offer p st =
     \<lparr>price = p, stock = Num st, priceFormatted = [], condition = js ''NM/M'', outpostId = []\<rparr>"

definition c4_longer :: card where
  "c4_longer = variant ''Sol Ring (Foil Etched)'' ''Commander'' 500 2 False"

definition c4_shorter :: card where
  "c4_shorter = variant ''Sol'' ''Foundations'' 50 4 False"

definition c4_cmm :: card where
  "c4_cmm = variant ''Sol Ring'' ''CMM'' 26 0 False"

definition c4_fdn :: card where
  "c4_fdn = variant ''Sol Ring'' ''Foundations'' 100 3 False"

definition c4_mint :: card where
  "c4_mint =
     (variant ''Sol Ring'' ''Commander'' 100 1 False)
       \<lparr>conditions := [(plain_offer 100 1)\<lparr>condition := js ''Mint''\<rparr>]\<rparr>"

definition c4_exgd :: card where
  "c4_exgd =
     (variant ''Sol Ring'' ''Commander'' 200 1 False)
       \<lparr>conditions := [(plain_offer 200 0)\<lparr>condition := js ''EX/GD''\<rparr>,
                       (plain_offer 300 1)\<lparr>condition := js ''EX/GD''\<rparr>]\<rparr>"

section \<open>Data of the orchestrator's properties\<close>

text \<open>
  A world with one collection (Foundations) whose page holds the scenario container, in
  which the first write of the run fails and later writes succeed; and the partial
  output for the variables of the \<open>try\<close> block at a throw.
\<close>

definition abort_world :: world where
  "abort_world =
     \<lparr>snapshot = Some [dup_anchor], progress_json = None, output_json = None,
      now = js ''2025-01-01T00:00:00.000Z'',
      respond = (\<lambda>n url. Some [scenario_element]), requests = 0,
      write_fails = (\<lambda>n. n = 0), writes = 0, unlink_fails = False\<rparr>"

definition expected_partial :: "run_state \<Rightarrow> world \<Rightarrow> output_file" where
  "expected_partial st w =
     Partial \<lparr>po_lastUpdated = now w, po_totalCards = length (allCards st),
              po_collectionsProcessed = collectionsProcessed st, po_isPartial = True,
              po_cards = allCards st\<rparr>"

text \<open>
  The same world with every write succeeding; and that world resumed from a progress
  file whose list of skipped collection ids holds a null.
\<close>

definition ok_world :: world where
  "ok_world = abort_world\<lparr>write_fails := (\<lambda>n. False)\<rparr>"

definition resumed_world :: world where
  "resumed_world =
     ok_world\<lparr>progress_json := Some (Saved
       \<lparr>p_timestamp = [], p_collectionsProcessed = 0, p_collectionsSkipped = 1, p_totalCards = 0,
        p_processedCollectionIds = [], p_skippedCollectionIds = [None], p_cards = []\<rparr>)\<rparr>"

section \<open>Properties of the extractor\<close>

lemma parseSale_Some:
  "parseSale s = Some c \<Longrightarrow> condition c \<noteq> [] \<and> (0 < price c \<or> num_gt0 (stock c))"
  by (auto simp: parseSale_def Let_def split: if_splits)

lemma parseSale_empty_label: "trim (quality_text s) = [] \<Longrightarrow> parseSale s = None"
  by (simp add: parseSale_def Let_def)

lemma parseConditions_mem:
  "c \<in> set (parseConditions ss) \<Longrightarrow> \<exists>s \<in> set ss. parseSale s = Some c"
  by (auto simp: parseConditions_def List.map_filter_def)

lemma conditions_parseCardData: "conditions (parseCardData el) = parseConditions (sales el)"
  by (simp add: parseCardData_def Let_def split: prod.splits)

lemma parseConditions_append:
  "parseConditions (xs @ ys) = parseConditions xs @ parseConditions ys"
  by (simp add: parseConditions_def List.map_filter_def)

lemma parseConditions_Cons_None:
  "parseSale s = None \<Longrightarrow> parseConditions (s # ys) = parseConditions ys"
  by (simp add: parseConditions_def List.map_filter_def)

lemma withCollection_fields:
  "name (withCollection coll d) = name d"
  "price (withCollection coll d) = price d"
  "stock (withCollection coll d) = stock d"
  "foil (withCollection coll d) = foil d"
  "conditions (withCollection coll d) = conditions d"
  "set_label (withCollection coll d) = set_label d"
  "collection (withCollection coll d) = cname coll"
  "collectionId (withCollection coll d) = cid coll"
  by (simp_all add: withCollection_def card_data.extend_def card_data.defs priced.defs)

lemma accepted_foldl:
  "accepted (foldl (scrapeStep coll) st els) =
     accepted st @ map (withCollection coll) (filter passesFilters (map parseCardData els))"
  by (induction els arbitrary: st) (auto simp: scrapeStep_def Let_def)

lemma scrapeCollection_eq:
  "scrapeCollection coll els =
     map (withCollection coll) (filter passesFilters (map parseCardData els))"
  by (simp add: scrapeCollection_def scrapePage_def accepted_foldl)

lemma skippedCards_foldl:
  "skippedCards (foldl (scrapeStep coll) st els) =
     skippedCards st + length (filter (\<lambda>d. \<not> passesFilters d) (map parseCardData els))"
  by (induction els arbitrary: st) (auto simp: scrapeStep_def Let_def)

lemma skipReasons_foldl:
  "skipReasons (foldl (scrapeStep coll) st els) =
     \<lparr>noName = noName (skipReasons st) +
        length (filter (\<lambda>d. \<not> hasValidName d) (map parseCardData els)),
      noPrice = noPrice (skipReasons st) +
        length (filter (\<lambda>d. \<not> hasValidPrice d) (map parseCardData els)),
      noConditions = noConditions (skipReasons st) +
        length (filter (\<lambda>d. \<not> hasValidConditions d) (map parseCardData els)),
      noSet = noSet (skipReasons st) +
        length (filter (\<lambda>d. \<not> hasValidSet d) (map parseCardData els))\<rparr>"
  by (induction els arbitrary: st) (auto simp: scrapeStep_def Let_def bump_def passesFilters_def)

lemma scenario_conditions:
  "parseConditions scenario_rows =
     [\<lparr>price = 150, stock = Num 3, priceFormatted = js ''1.50 '' @ euro,
       condition = js ''NM/M'', outpostId = js ''1001''\<rparr>]"
  by code_simp

lemma unlabelled_row_facts:
  "trim (quality_text unlabelled_row) = []"
  "priceCents_of (trim (price_text unlabelled_row)) = 150"
  "parseInt10 (trim (concat (map snd (stock_elements unlabelled_row)))) = Num 3"
  by code_simp+

text \<open>
  C10. A sale row whose condition label is empty after trimming is never turned into an
  offer, whatever its price and stock: it can be removed from the container without
  changing the offers of the extracted record. Every offer that is extracted has a
  non-empty label and, in addition, a positive price or a positive stock.
\<close>

theorem C10_blank_label_row_gives_no_offer:
  "(trim (quality_text s) = [] \<longrightarrow>
      parseSale s = None \<and>
      conditions (parseCardData (el\<lparr>sales := xs @ s # ys\<rparr>)) =
        conditions (parseCardData (el\<lparr>sales := xs @ ys\<rparr>))) \<and>
   (\<forall>c \<in> set (conditions (parseCardData el)).
      condition c \<noteq> [] \<and> (0 < price c \<or> num_gt0 (stock c)))"
proof -
  have "parseSale s = None \<and>
      conditions (parseCardData (el\<lparr>sales := xs @ s # ys\<rparr>)) =
        conditions (parseCardData (el\<lparr>sales := xs @ ys\<rparr>))"
    if "trim (quality_text s) = []"
    using parseSale_empty_label [OF that]
    by (simp add: conditions_parseCardData parseConditions_append parseConditions_Cons_None)
  moreover have "condition c \<noteq> [] \<and> (0 < price c \<or> num_gt0 (stock c))"
    if "c \<in> set (conditions (parseCardData el))" for c
    using that parseConditions_mem [of c "sales el"] parseSale_Some
    by (auto simp: conditions_parseCardData)
  ultimately show ?thesis by blast
qed

theorem C10_blank_label_row_witness:
  "trim (quality_text unlabelled_row) = [] \<and>
   0 < priceCents_of (trim (price_text unlabelled_row)) \<and>
   parseSale unlabelled_row = None \<and>
   conditions (parseCardData (scenario_element\<lparr>sales := scenario_rows @ [unlabelled_row]\<rparr>)) =
     conditions (parseCardData (scenario_element\<lparr>sales := scenario_rows\<rparr>)) \<and>
   conditions (parseCardData (scenario_element\<lparr>sales := scenario_rows\<rparr>)) =
     [\<lparr>price = 150, stock = Num 3, priceFormatted = js ''1.50 '' @ euro,
       condition = js ''NM/M'', outpostId = js ''1001''\<rparr>]"
  using C10_blank_label_row_gives_no_offer
    [where s = unlabelled_row and el = scenario_element and xs = scenario_rows and ys = "[]"]
  by (simp add: unlabelled_row_facts conditions_parseCardData scenario_conditions)

section \<open>Properties of the enumerator of the saved snapshot\<close>

lemma collectionIdMatch_digits:
  "collectionIdMatch h = Some i \<Longrightarrow> i \<noteq> [] \<and> (\<forall>c \<in> set i. is_digit c)"
  by (induction h rule: collectionIdMatch.induct)
     (auto simp: Let_def split: if_splits dest: set_takeWhileD)

lemma collectionKey_inj:
  assumes "\<forall>c \<in> set i. is_digit c" "\<forall>c \<in> set i'. is_digit c"
    and "collectionKey i n = collectionKey i' n'"
  shows "i = i' \<and> n = n'"
  using assms
proof (induction i arbitrary: i')
  case Nil
  then show ?case by (cases i') (auto simp: collectionKey_def js_def is_digit_def)
next
  case (Cons a i)
  then show ?case by (cases i') (auto simp: collectionKey_def js_def is_digit_def)
qed

lemma snapshotStep_inv: "snapshot_inv st \<Longrightarrow> snapshot_inv (snapshotStep st a)"
proof -
  assume inv: "snapshot_inv st"
  obtain cs seen where st: "st = (cs, seen)" by (cases st)
  show ?thesis
  proof (cases "href a")
    case None
    then show ?thesis using inv by (simp add: snapshotStep_def st Let_def)
  next
    case (Some h)
    show ?thesis
    proof (cases "collectionIdMatch h")
      case None
      then show ?thesis using inv Some by (simp add: snapshotStep_def st Let_def)
    next
      case (Some i)
      note dig = collectionIdMatch_digits [OF Some]
      let ?nm = "trim (anchor_text a)"
      show ?thesis
      proof (cases "h \<noteq> [] \<and> ?nm \<noteq> [] \<and> collectionKey i ?nm \<notin> seen")
        case False
        then show ?thesis using inv \<open>href a = Some h\<close> Some
          by (auto simp: snapshotStep_def st Let_def)
      next
        case True
        have new: "(i, ?nm) \<notin> (\<lambda>c. (cid c, cname c)) ` set cs"
        proof
          assume "(i, ?nm) \<in> (\<lambda>c. (cid c, cname c)) ` set cs"
          then obtain c where "c \<in> set cs" "cid c = i" "cname c = ?nm" by auto
          have "seen = (\<lambda>c. collectionKey (cid c) (cname c)) ` set cs"
            using inv by (simp add: snapshot_inv_def st)
          with \<open>c \<in> set cs\<close> have "collectionKey (cid c) (cname c) \<in> seen" by blast
          with \<open>cid c = i\<close> \<open>cname c = ?nm\<close> have "collectionKey i ?nm \<in> seen" by simp
          with True show False by simp
        qed
        have step: "snapshotStep st a =
            (cs @ [\<lparr>cname = ?nm, cid = i, curl = getCollectionUrl i\<rparr>], insert (collectionKey i ?nm) seen)"
          using True \<open>href a = Some h\<close> Some by (simp add: snapshotStep_def st Let_def)
        show ?thesis
          unfolding step using inv new dig True
          by (auto simp: snapshot_inv_def st)
      qed
    qed
  qed
qed

lemma snapshot_foldl_inv: "snapshot_inv st \<Longrightarrow> snapshot_inv (foldl snapshotStep st as)"
  by (induction as arbitrary: st) (simp_all add: snapshotStep_inv)

lemma snapshot_inv_result: "snapshot_inv (foldl snapshotStep ([], {}) as)"
  by (rule snapshot_foldl_inv) (simp add: snapshot_inv_def)

lemma parseCollectionsFromHTML_distinct:
  "distinct (map (\<lambda>c. (cid c, cname c)) (parseCollectionsFromHTML snap))"
  using snapshot_inv_result by (cases snap) (auto simp: parseCollectionsFromHTML_def snapshot_inv_def)

lemma parseCollectionsFromHTML_names:
  "c \<in> set (parseCollectionsFromHTML snap) \<Longrightarrow> cname c \<noteq> []"
  using snapshot_inv_result by (cases snap) (auto simp: parseCollectionsFromHTML_def snapshot_inv_def)

section \<open>The extractor's claims\<close>

text \<open>
  C6. Every offer of an extracted record has a positive price or a positive stock, for
  parseCardData and for the records scrapeCollection returns. A container with the two
  scenario rows (NM/M, stock 3, 1.50 EUR) and (HP, stock 0, 0.00 EUR) yields exactly one
  offer, (NM/M, 150, 3), and the scenario container yields one record with that offer.
\<close>

theorem C6_offers_have_price_or_stock:
  "(\<forall>c \<in> set (conditions (parseCardData el)). 0 < price c \<or> num_gt0 (stock c)) \<and>
   (\<forall>r \<in> set (scrapeCollection coll els).
      \<forall>c \<in> set (conditions r). 0 < price c \<or> num_gt0 (stock c)) \<and>
   (sales el = scenario_rows \<longrightarrow>
      map (\<lambda>c. (condition c, price c, stock c)) (conditions (parseCardData el)) =
        [(js ''NM/M'', 150, Num 3)]) \<and>
   map (\<lambda>r. map (\<lambda>c. (condition c, price c, stock c)) (conditions r))
     (scrapeCollection scenario_collection [scenario_element]) = [[(js ''NM/M'', 150, Num 3)]]"
proof -
  have a: "0 < price c \<or> num_gt0 (stock c)" if "c \<in> set (conditions (parseCardData e))" for c e
    using that parseConditions_mem [of c "sales e"] parseSale_Some
    by (auto simp: conditions_parseCardData)
  have b: "0 < price c \<or> num_gt0 (stock c)"
    if "r \<in> set (scrapeCollection coll els)" "c \<in> set (conditions r)" for r c
  proof -
    from that(1) obtain e where "r = withCollection coll (parseCardData e)"
      by (auto simp: scrapeCollection_eq)
    with that(2) have "c \<in> set (conditions (parseCardData e))"
      by (simp add: withCollection_fields)
    then show ?thesis by (rule a)
  qed
  have c: "map (\<lambda>c. (condition c, price c, stock c)) (conditions (parseCardData el)) =
      [(js ''NM/M'', 150, Num 3)]"
    if "sales el = scenario_rows"
    using that by (simp add: conditions_parseCardData scenario_conditions)
  have d: "map (\<lambda>r. map (\<lambda>c. (condition c, price c, stock c)) (conditions r))
     (scrapeCollection scenario_collection [scenario_element]) = [[(js ''NM/M'', 150, Num 3)]]"
    by code_simp
  from a b c d show ?thesis by blast
qed

lemma scenario_offer_mem:
  "scenario_offer \<in> set (conditions (parseCardData scenario_element))"
  "sales scenario_element = scenario_rows"
  by (simp_all add: conditions_parseCardData scenario_element_def scenario_conditions
        scenario_offer_def)

theorem C6_offers_witness:
  "scenario_offer \<in> set (conditions (parseCardData scenario_element)) \<and>
   (0 < price scenario_offer \<or> num_gt0 (stock scenario_offer)) \<and>
   sales scenario_element = scenario_rows \<and>
   map (\<lambda>c. (condition c, price c, stock c)) (conditions (parseCardData scenario_element)) =
     [(js ''NM/M'', 150, Num 3)]"
proof -
  note c6 = C6_offers_have_price_or_stock [of scenario_element scenario_collection "[]"]
  note A = c6 [THEN conjunct1, rule_format, OF scenario_offer_mem(1)]
  note B = c6 [THEN conjunct2, THEN conjunct2, THEN conjunct1, rule_format,
    OF scenario_offer_mem(2)]
  from A B scenario_offer_mem show ?thesis by blast
qed

lemma withCollection_inj: "withCollection coll d = withCollection coll d' \<Longrightarrow> d = d'"
  by (cases d, cases d') (simp add: withCollection_def card_data.extend_def card_data.defs priced.defs)

text \<open>
  C7. Every record that scrapeCollection returns has a name that is not blank, at least
  one offer, a positive price and a set label that is not blank, and carries the name of
  the collection it was scraped from (not empty for a collection of the enumerator). The
  output is exactly the containers that pass the four checks, in page order; a container
  that fails a check is left out, counted once as skipped and once under each reason it
  fails.
\<close>

theorem C7_accepted_records_pass_four_checks:
  "(\<forall>r \<in> set (scrapeCollection coll els).
       name r \<noteq> [] \<and> trim (name r) \<noteq> [] \<and> conditions r \<noteq> [] \<and> 0 < price r \<and>
       (\<exists>s. set_label r = Some s \<and> s \<noteq> [] \<and> trim s \<noteq> []) \<and>
       collection r = cname coll \<and>
       (coll \<in> set (parseCollectionsFromHTML snap) \<longrightarrow> collection r \<noteq> [])) \<and>
   scrapeCollection coll els =
     map (withCollection coll) (filter passesFilters (map parseCardData els)) \<and>
   (\<forall>e \<in> set els. \<not> passesFilters (parseCardData e) \<longrightarrow>
       withCollection coll (parseCardData e) \<notin> set (scrapeCollection coll els)) \<and>
   skippedCards (scrapePage coll els) =
     length (filter (\<lambda>d. \<not> passesFilters d) (map parseCardData els)) \<and>
   skipReasons (scrapePage coll els) =
     \<lparr>noName = length (filter (\<lambda>d. \<not> hasValidName d) (map parseCardData els)),
      noPrice = length (filter (\<lambda>d. \<not> hasValidPrice d) (map parseCardData els)),
      noConditions = length (filter (\<lambda>d. \<not> hasValidConditions d) (map parseCardData els)),
      noSet = length (filter (\<lambda>d. \<not> hasValidSet d) (map parseCardData els))\<rparr>"
proof -
  have a: "name r \<noteq> [] \<and> trim (name r) \<noteq> [] \<and> conditions r \<noteq> [] \<and> 0 < price r \<and>
       (\<exists>s. set_label r = Some s \<and> s \<noteq> [] \<and> trim s \<noteq> []) \<and>
       collection r = cname coll \<and>
       (coll \<in> set (parseCollectionsFromHTML snap) \<longrightarrow> collection r \<noteq> [])"
    if "r \<in> set (scrapeCollection coll els)" for r
  proof -
    from that obtain d where r: "r = withCollection coll d" and d: "passesFilters d"
      by (auto simp: scrapeCollection_eq)
    from d show ?thesis
      using parseCollectionsFromHTML_names [of coll snap]
      by (auto simp: r withCollection_fields passesFilters_def hasValidName_def hasValidPrice_def
            hasValidConditions_def hasValidSet_def split: option.splits)
  qed
  have b: "withCollection coll (parseCardData e) \<notin> set (scrapeCollection coll els)"
    if "\<not> passesFilters (parseCardData e)" for e
    using that by (auto simp: scrapeCollection_eq dest: withCollection_inj)
  have c: "skippedCards (scrapePage coll els) =
     length (filter (\<lambda>d. \<not> passesFilters d) (map parseCardData els))"
    by (simp add: scrapePage_def skippedCards_foldl)
  have d: "skipReasons (scrapePage coll els) =
     \<lparr>noName = length (filter (\<lambda>d. \<not> hasValidName d) (map parseCardData els)),
      noPrice = length (filter (\<lambda>d. \<not> hasValidPrice d) (map parseCardData els)),
      noConditions = length (filter (\<lambda>d. \<not> hasValidConditions d) (map parseCardData els)),
      noSet = length (filter (\<lambda>d. \<not> hasValidSet d) (map parseCardData els))\<rparr>"
    by (simp add: scrapePage_def skipReasons_foldl)
  from a b c d scrapeCollection_eq [of coll els] show ?thesis by blast
qed

lemma scenario_page:
  "map (\<lambda>r. (name r, price r, stock r, collection r, set_label r,
              map (\<lambda>c. (condition c, price c, stock c)) (conditions r)))
     (scrapeCollection scenario_collection [scenario_element, rejected_element]) =
   [(js ''Sol Ring'', 150, Num 3, js ''Commander Masters'', Some (js ''Commander Masters''),
     [(js ''NM/M'', 150, Num 3)])]"
  "skippedCards (scrapePage scenario_collection [scenario_element, rejected_element]) = 1"
  "skipReasons (scrapePage scenario_collection [scenario_element, rejected_element]) =
     \<lparr>noName = 1, noPrice = 0, noConditions = 0, noSet = 1\<rparr>"
  "passesFilters (parseCardData scenario_element)"
  "\<not> passesFilters (parseCardData rejected_element)"
  by code_simp+

lemma scenario_card_mem:
  "withCollection scenario_collection (parseCardData scenario_element)
     \<in> set (scrapeCollection scenario_collection [scenario_element, rejected_element])"
  by (simp add: scrapeCollection_eq scenario_page)

theorem C7_accepted_records_witness:
  "withCollection scenario_collection (parseCardData scenario_element)
     \<in> set (scrapeCollection scenario_collection [scenario_element, rejected_element]) \<and>
   trim (name (withCollection scenario_collection (parseCardData scenario_element))) \<noteq> [] \<and>
   0 < price (withCollection scenario_collection (parseCardData scenario_element)) \<and>
   rejected_element \<in> set [scenario_element, rejected_element] \<and>
   \<not> passesFilters (parseCardData rejected_element) \<and>
   withCollection scenario_collection (parseCardData rejected_element)
     \<notin> set (scrapeCollection scenario_collection [scenario_element, rejected_element]) \<and>
   skippedCards (scrapePage scenario_collection [scenario_element, rejected_element]) = 1"
proof -
  note c7 = C7_accepted_records_pass_four_checks [of scenario_collection "[scenario_element, rejected_element]" None]
  note A = c7 [THEN conjunct1, rule_format, OF scenario_card_mem]
  note B = c7 [THEN conjunct2, THEN conjunct2, THEN conjunct1, rule_format, of rejected_element]
  have m: "rejected_element \<in> set [scenario_element, rejected_element]" by simp
  from A have A1: "trim (name (withCollection scenario_collection (parseCardData scenario_element))) \<noteq> []"
    and A2: "0 < price (withCollection scenario_collection (parseCardData scenario_element))"
    by blast+
  from B [OF m scenario_page(5)] scenario_card_mem A1 A2 m scenario_page(2,5)
  show ?thesis by blast
qed

section \<open>Properties of the sort and of the consolidation\<close>

lemma insert_sorted_key:
  assumes "\<And>x y. (cmp x y \<le> 0) = (k x \<le> (k y :: 'k :: linorder))"
  shows "insert_sorted cmp x ys = insort_key k x ys"
  by (induction ys) (simp_all add: assms)

lemma js_sort_key:
  assumes "\<And>x y. (cmp x y \<le> 0) = (k x \<le> (k y :: 'k :: linorder))"
  shows "js_sort cmp xs = sort_key k xs"
  by (induction xs) (simp_all add: js_sort_def insert_sorted_key [OF assms] sort_key_def)

lemma first_of_insort: "first_of (insort_key k x ys) =
   (case first_of ys of None \<Rightarrow> Some x | Some m \<Rightarrow> if k x \<le> k m then Some x else Some m)"
  by (cases ys) (simp_all add: first_of_def)

lemma first_of_sort_key: "first_of (sort_key k xs) = first_min k xs"
  by (induction xs) (simp_all add: first_of_insort, simp add: first_of_def)

lemma first_min_None: "first_min k xs = None \<longleftrightarrow> xs = []"
  by (induction xs) (auto split: option.splits)

lemma first_min_props:
  "first_min k xs = Some m \<Longrightarrow>
     \<exists>i < length xs. xs ! i = m \<and> (\<forall>j < length xs. k m \<le> k (xs ! j)) \<and> (\<forall>j < i. k m < k (xs ! j))"
proof (induction xs arbitrary: m)
  case Nil
  then show ?case by simp
next
  case (Cons x xs)
  show ?case
  proof (cases "first_min k xs")
    case None
    then have "xs = []" by (simp add: first_min_None)
    with Cons.prems show ?thesis by auto
  next
    case (Some m')
    from Cons.IH [OF Some] obtain i where i: "i < length xs" "xs ! i = m'"
      "\<forall>j < length xs. k m' \<le> k (xs ! j)" "\<forall>j < i. k m' < k (xs ! j)" by blast
    show ?thesis
    proof (cases "k x \<le> k m'")
      case True
      with Cons.prems Some have m: "m = x" by simp
      have "\<forall>j < length (x # xs). k m \<le> k ((x # xs) ! j)"
      proof (intro allI impI)
        fix j assume "j < length (x # xs)"
        then show "k m \<le> k ((x # xs) ! j)"
          using True i(3) m by (cases j) (auto intro: order_trans)
      qed
      then show ?thesis using m by (intro exI [of _ 0]) simp
    next
      case False
      with Cons.prems Some have m: "m = m'" by simp
      have a: "\<forall>j < length (x # xs). k m \<le> k ((x # xs) ! j)"
      proof (intro allI impI)
        fix j assume "j < length (x # xs)"
        then show "k m \<le> k ((x # xs) ! j)"
          using False i(3) m by (cases j) auto
      qed
      have b: "\<forall>j < Suc i. k m < k ((x # xs) ! j)"
      proof (intro allI impI)
        fix j assume "j < Suc i"
        then show "k m < k ((x # xs) ! j)"
          using False i(4) m by (cases j) auto
      qed
      show ?thesis using a b i(1,2) m by (intro exI [of _ "Suc i"]) simp
    qed
  qed
qed

lemma cmpAvailable_key: "(cmpAvailable a b \<le> 0) = (keyAvailable a \<le> keyAvailable b)"
  by (auto simp: cmpAvailable_def keyAvailable_def Let_def)

lemma cmpPrice_key: "(cmpPrice a b \<le> 0) = (price a \<le> price b)"
  by (simp add: cmpPrice_def)

lemma bestCard_eq:
  "bestCard vs =
     (if filter inStock vs \<noteq> [] then first_min keyAvailable (filter inStock vs)
      else first_min price (filter (\<lambda>c. 0 < price c) vs))"
proof -
  have fi: "filter (\<lambda>c. num_gt0 (stock c) \<and> 0 < price c) vs = filter inStock vs"
    by (rule filter_cong) (simp_all add: inStock_def)
  have s1: "first_of (js_sort cmpAvailable xs) = first_min keyAvailable xs" for xs
    by (simp add: js_sort_key [of cmpAvailable keyAvailable, OF cmpAvailable_key] first_of_sort_key)
  have s2: "first_of (js_sort cmpPrice xs) = first_min price xs" for xs
    by (simp add: js_sort_key [of cmpPrice price, OF cmpPrice_key] first_of_sort_key)
  show ?thesis
    unfolding bestCard_def Let_def fi s1 s2 length_greater_0_conv
    by (simp add: first_min_None)
qed

lemma first_min_mem: "first_min k xs = Some m \<Longrightarrow> m \<in> set xs"
  by (induction xs arbitrary: m) (auto split: option.splits if_splits)

lemma first_min_le: "first_min k xs = Some m \<Longrightarrow> x \<in> set xs \<Longrightarrow> k m \<le> k x"
  by (induction xs arbitrary: m) (auto split: option.splits if_splits simp: first_min_None)

lemma bestCard_None: "bestCard vs = None \<longleftrightarrow> (\<forall>c \<in> set vs. \<not> 0 < price c)"
  by (auto simp: bestCard_eq first_min_None filter_empty_conv inStock_def)

lemma bestCard_mem: "bestCard vs = Some b \<Longrightarrow> b \<in> set vs \<and> 0 < price b"
  by (auto simp: bestCard_eq split: if_splits dest!: first_min_mem simp: inStock_def)

lemma bestCard_inStock:
  assumes "bestCard vs = Some b" "\<exists>c \<in> set vs. inStock c"
  shows "inStock b \<and> (\<forall>c \<in> set vs. inStock c \<longrightarrow>
           price b \<le> price c \<and> (price c = price b \<and> foil b \<longrightarrow> foil c))"
proof -
  from assms have ne: "filter inStock vs \<noteq> []" by (auto simp: filter_empty_conv)
  with assms have fm: "first_min keyAvailable (filter inStock vs) = Some b"
    by (simp add: bestCard_eq)
  from first_min_mem [OF fm] have "inStock b" by simp
  moreover have "price b \<le> price c \<and> (price c = price b \<and> foil b \<longrightarrow> foil c)"
    if "c \<in> set vs" "inStock c" for c
  proof -
    from that have "c \<in> set (filter inStock vs)" by simp
    from first_min_le [OF fm this] show ?thesis
      by (auto simp: keyAvailable_def split: if_splits)
  qed
  ultimately show ?thesis by blast
qed

lemma bestCard_noStock:
  assumes "bestCard vs = Some b" "\<not> (\<exists>c \<in> set vs. inStock c)"
  shows "\<forall>c \<in> set vs. 0 < price c \<longrightarrow> price b \<le> price c"
proof -
  from assms have "filter inStock vs = []" by (auto simp: filter_empty_conv)
  with assms have fm: "first_min price (filter (\<lambda>c. 0 < price c) vs) = Some b"
    by (simp add: bestCard_eq)
  show ?thesis using first_min_le [OF fm] by auto
qed

lemma groupPush_distinct:
  "distinct (map fst gs) \<Longrightarrow>
     groupPush gs k c =
       map (\<lambda>g. if fst g = k then (fst g, snd g @ [c]) else g) gs @
       (if k \<in> fst ` set gs then [] else [(k, [c])])"
proof (induction gs)
  case Nil
  then show ?case by simp
next
  case (Cons g gs)
  obtain k' vs where g: "g = (k', vs)" by (cases g)
  show ?case
  proof (cases "k' = k")
    case True
    with Cons.prems g have "k \<notin> fst ` set gs" by auto
    then have "map (\<lambda>g. if fst g = k then (fst g, snd g @ [c]) else g) gs = gs"
      by (intro map_idI) auto
    with True g show ?thesis by simp
  next
    case False
    with Cons g show ?thesis by auto
  qed
qed

lemma groups_inv_push:
  assumes "groups_inv lower cards gs"
  shows "groups_inv lower (cards @ [c]) (groupPush gs (cardKey lower c) c)"
proof -
  let ?k = "cardKey lower c"
  let ?upd = "\<lambda>g. if fst g = ?k then (fst g, snd g @ [c]) else g"
  from assms have d: "distinct (map fst gs)"
    and ks: "fst ` set gs = cardKey lower ` set cards"
    and e: "\<And>g. g \<in> set gs \<Longrightarrow> snd g = filter (\<lambda>c. cardKey lower c = fst g) cards"
    by (auto simp: groups_inv_def)
  have m: "map fst (map ?upd gs) = map fst gs"
    by (induction gs) auto
  then have ms: "fst ` set (map ?upd gs) = fst ` set gs"
    by (metis list.set_map)
  have u: "snd g' = filter (\<lambda>c. cardKey lower c = fst g') (cards @ [c])"
    if "g' \<in> set (map ?upd gs)" for g'
  proof -
    from that have "\<exists>g \<in> set gs. g' = ?upd g"
      unfolding set_map by (rule imageE) (rule bexI)
    then obtain g where "g \<in> set gs" "g' = ?upd g" ..
    with e [of g] show ?thesis by auto
  qed
  show ?thesis
  proof (cases "?k \<in> fst ` set gs")
    case True
    then have gp: "groupPush gs ?k c = map ?upd gs"
      by (simp add: groupPush_distinct [OF d])
    have "fst ` set (map ?upd gs) = cardKey lower ` set (cards @ [c])"
      unfolding ms using True ks by auto
    then show ?thesis
      unfolding gp groups_inv_def m using d u by blast
  next
    case False
    then have gp: "groupPush gs ?k c = map ?upd gs @ [(?k, [c])]"
      by (simp add: groupPush_distinct [OF d])
    from False ks have "?k \<notin> cardKey lower ` set cards" by simp
    then have "\<forall>x \<in> set cards. cardKey lower x \<noteq> ?k" by (metis imageI)
    then have n: "filter (\<lambda>x. cardKey lower x = ?k) cards = []"
      by (simp add: filter_empty_conv)
    have k1: "fst ` set (map ?upd gs @ [(?k, [c])]) = cardKey lower ` set (cards @ [c])"
      using ms ks by (simp add: image_Un)
    have k2: "distinct (map fst (map ?upd gs @ [(?k, [c])]))"
      using d False unfolding map_append m by simp
    have k3: "snd g' = filter (\<lambda>c. cardKey lower c = fst g') (cards @ [c])"
      if "g' \<in> set (map ?upd gs @ [(?k, [c])])" for g'
    proof (cases "g' = (?k, [c])")
      case True
      then show ?thesis using n by simp
    next
      case False
      with that have "g' \<in> set (map ?upd gs)" by simp
      then show ?thesis by (rule u)
    qed
    show ?thesis
      unfolding gp groups_inv_def using k1 k2 k3 by blast
  qed
qed

lemma groups_inv_foldl:
  "groups_inv lower pre gs \<Longrightarrow>
     groups_inv lower (pre @ cards)
       (foldl (\<lambda>groups c. groupPush groups (cardKey lower c) c) gs cards)"
proof (induction cards arbitrary: pre gs)
  case Nil
  then show ?case by simp
next
  case (Cons c cards)
  from Cons.IH [OF groups_inv_push [OF Cons.prems, of c]] show ?case by simp
qed

lemma groups_inv_cardGroups: "groups_inv lower cards (cardGroups lower cards)"
proof -
  have "groups_inv lower [] []" by (simp add: groups_inv_def)
  from groups_inv_foldl [OF this, of cards] show ?thesis by (simp add: cardGroups_def)
qed

lemma filter_consolidate:
  assumes "distinct (map fst gs)"
    and "\<forall>g \<in> set gs. \<forall>c \<in> set (snd g). key c = fst g"
  shows "filter (\<lambda>r. key r = k) (List.map_filter (\<lambda>(cardName, cardVariants). bestCard cardVariants) gs) =
     (case map_of gs k of None \<Rightarrow> []
      | Some vs \<Rightarrow> (case bestCard vs of None \<Rightarrow> [] | Some b \<Rightarrow> [b]))"
  using assms
proof (induction gs)
  case Nil
  then show ?case by (simp add: List.map_filter_def)
next
  case (Cons g gs)
  obtain k' vs where g: "g = (k', vs)" by (cases g)
  have mf: "List.map_filter f (g # gs) = (case f g of None \<Rightarrow> [] | Some b \<Rightarrow> [b]) @ List.map_filter f gs" for f
    by (simp add: List.map_filter_def split: option.splits)
  from Cons.prems have IH: "filter (\<lambda>r. key r = k) (List.map_filter (\<lambda>(cardName, cardVariants). bestCard cardVariants) gs) =
     (case map_of gs k of None \<Rightarrow> []
      | Some vs \<Rightarrow> (case bestCard vs of None \<Rightarrow> [] | Some b \<Rightarrow> [b]))"
    by (intro Cons.IH) auto
  have keyb: "key b = k'" if "bestCard vs = Some b" for b
    using bestCard_mem [OF that] Cons.prems(2) g by auto
  show ?case
  proof (cases "k' = k")
    case True
    with Cons.prems g have "map_of gs k = None"
      by (auto simp: map_of_eq_None_iff)
    with IH True g keyb show ?thesis
      by (auto simp: mf split: option.splits)
  next
    case False
    with IH g keyb show ?thesis
      by (auto simp: mf split: option.splits)
  qed
qed

lemma consolidate_group:
  "filter (\<lambda>r. cardKey lower r = k) (consolidateCards lower cards) =
     (case bestCard (filter (\<lambda>c. cardKey lower c = k) cards) of None \<Rightarrow> [] | Some b \<Rightarrow> [b])"
proof -
  note inv = groups_inv_cardGroups [of lower cards]
  then have d: "distinct (map fst (cardGroups lower cards))"
    and ks: "fst ` set (cardGroups lower cards) = cardKey lower ` set cards"
    and e: "\<forall>g \<in> set (cardGroups lower cards). snd g = filter (\<lambda>c. cardKey lower c = fst g) cards"
    by (auto simp: groups_inv_def)
  from e have f: "\<forall>g \<in> set (cardGroups lower cards). \<forall>c \<in> set (snd g). cardKey lower c = fst g"
    by auto
  have m: "map_of (cardGroups lower cards) k =
      (if k \<in> cardKey lower ` set cards then Some (filter (\<lambda>c. cardKey lower c = k) cards) else None)"
  proof (cases "k \<in> cardKey lower ` set cards")
    case True
    then obtain vs where "(k, vs) \<in> set (cardGroups lower cards)"
      unfolding ks [symmetric] by force
    with e d show ?thesis using True by (auto simp: map_of_eq_Some_iff)
  next
    case False
    then show ?thesis
      unfolding ks [symmetric] by (simp add: map_of_eq_None_iff)
  qed
  have empty: "bestCard (filter (\<lambda>c. cardKey lower c = k) cards) = None"
    if "k \<notin> cardKey lower ` set cards"
  proof -
    from that have "filter (\<lambda>c. cardKey lower c = k) cards = []"
      by (auto simp: filter_empty_conv)
    then show ?thesis by (simp add: bestCard_None)
  qed
  show ?thesis
    unfolding consolidateCards_def filter_consolidate [OF d f] m
    using empty by (auto split: option.splits)
qed

lemma c1_eval:
  "consolidateCards toLowerCase_ascii [c1_cheap, c1_dear] = [c1_dear]"
  "cardKey toLowerCase_ascii c1_cheap = cardKey toLowerCase_ascii c1_dear"
  "price c1_cheap = 100" "price c1_dear = 500"
  by code_simp+

text \<open>
  C1, as stated, fails: a name with an out-of-stock listing at 100 and an in-stock
  listing at 500 is represented by the listing at 500, which is dearer than another
  price-positive record of its group.
\<close>

theorem C1_cheaper_out_of_stock_counterexample:
  "consolidateCards toLowerCase_ascii [c1_cheap, c1_dear] = [c1_dear] \<and>
   c1_cheap \<in> set [c1_cheap, c1_dear] \<and>
   cardKey toLowerCase_ascii c1_cheap = cardKey toLowerCase_ascii c1_dear \<and>
   0 < price c1_cheap \<and> \<not> price c1_dear \<le> price c1_cheap"
  by (simp add: c1_eval)

text \<open>
  C1, amended. For every name (key) that has a record with a positive price,
  consolidateCards returns exactly one card of that name; it is one of the records of
  the group and its price is positive and not above the price of any price-positive
  record of the group that is in stock, or of any price-positive record of the group
  when none of them is in stock.
\<close>

theorem C1_one_card_per_priced_name:
  assumes "c \<in> set cards" and "0 < price c"
  shows "\<exists>b. filter (\<lambda>r. cardKey lower r = cardKey lower c) (consolidateCards lower cards) = [b] \<and>
     b \<in> set cards \<and> cardKey lower b = cardKey lower c \<and> 0 < price b \<and>
     (\<forall>d \<in> set cards.
        cardKey lower d = cardKey lower c \<and> 0 < price d \<and>
        (num_gt0 (stock d) \<or>
         \<not> (\<exists>e \<in> set cards. cardKey lower e = cardKey lower c \<and> 0 < price e \<and> num_gt0 (stock e)))
        \<longrightarrow> price b \<le> price d)"
proof -
  let ?G = "filter (\<lambda>x. cardKey lower x = cardKey lower c) cards"
  from assms have "c \<in> set ?G" by simp
  with assms(2) have "bestCard ?G \<noteq> None" by (auto simp: bestCard_None)
  then obtain b where b: "bestCard ?G = Some b" by auto
  from bestCard_mem [OF b] have mem: "b \<in> set cards" "cardKey lower b = cardKey lower c" "0 < price b"
    by auto
  have one: "filter (\<lambda>r. cardKey lower r = cardKey lower c) (consolidateCards lower cards) = [b]"
    by (simp add: consolidate_group b)
  have le: "price b \<le> price d"
    if d: "d \<in> set cards" "cardKey lower d = cardKey lower c" "0 < price d"
      and s: "num_gt0 (stock d) \<or>
         \<not> (\<exists>e \<in> set cards. cardKey lower e = cardKey lower c \<and> 0 < price e \<and> num_gt0 (stock e))"
    for d
  proof (cases "\<exists>x \<in> set ?G. inStock x")
    case True
    then have "\<exists>e \<in> set cards. cardKey lower e = cardKey lower c \<and> 0 < price e \<and> num_gt0 (stock e)"
      by (auto simp: inStock_def)
    with s d have "d \<in> set ?G" "inStock d" by (auto simp: inStock_def)
    with bestCard_inStock [OF b True] show ?thesis by blast
  next
    case False
    from d have "d \<in> set ?G" by simp
    with bestCard_noStock [OF b False] d(3) show ?thesis by blast
  qed
  from one mem le show ?thesis by blast
qed

theorem C1_one_card_per_priced_name_witness:
  "c1_cheap \<in> set [c1_cheap, c1_dear] \<and> 0 < price c1_cheap \<and>
   (\<exists>b. filter (\<lambda>r. cardKey toLowerCase_ascii r = cardKey toLowerCase_ascii c1_cheap)
           (consolidateCards toLowerCase_ascii [c1_cheap, c1_dear]) = [b] \<and>
        b \<in> set [c1_cheap, c1_dear] \<and> 0 < price b)"
proof -
  have m: "c1_cheap \<in> set [c1_cheap, c1_dear]" by simp
  have p: "0 < price c1_cheap" by (simp add: c1_eval)
  from C1_one_card_per_priced_name [OF m p, of toLowerCase_ascii] m p show ?thesis by blast
qed

lemma c2_eval:
  "consolidateCards toLowerCase_ascii [c2_foil, c2_plain] = [c2_foil]"
  "cardKey toLowerCase_ascii c2_foil = cardKey toLowerCase_ascii c2_plain"
  "price c2_foil = 500" "price c2_plain = 500" "foil c2_foil" "\<not> foil c2_plain"
  "stock c2_foil = Num 0" "stock c2_plain = Num 0"
  by code_simp+

lemma c2_scenario:
  "consolidateCards toLowerCase_ascii [sc_plain, sc_foil] = [sc_foil]"
  "consolidateCards toLowerCase_ascii [sc_foil, sc_plain] = [sc_foil]"
  by code_simp+

text \<open>
  The selection of bestCard in full: from the cards in stock with a price, when there are
  any, the first one in input order with the least price and, among those of that price,
  non-foil before foil; otherwise from the cards with a price the first one with the
  least price; otherwise none.
\<close>

lemma bestCard_first_minimum:
  assumes "bestCard vs = Some b"
  shows "if \<exists>c \<in> set vs. inStock c
     then \<exists>i < length (filter inStock vs). filter inStock vs ! i = b \<and>
            (\<forall>j < length (filter inStock vs). keyAvailable b \<le> keyAvailable (filter inStock vs ! j)) \<and>
            (\<forall>j < i. keyAvailable b < keyAvailable (filter inStock vs ! j))
     else \<exists>i < length (filter (\<lambda>c. 0 < price c) vs). filter (\<lambda>c. 0 < price c) vs ! i = b \<and>
            (\<forall>j < length (filter (\<lambda>c. 0 < price c) vs). price b \<le> price (filter (\<lambda>c. 0 < price c) vs ! j)) \<and>
            (\<forall>j < i. price b < price (filter (\<lambda>c. 0 < price c) vs ! j))"
proof (cases "\<exists>c \<in> set vs. inStock c")
  case True
  then have "filter inStock vs \<noteq> []" by (auto simp: filter_empty_conv)
  with assms have "first_min keyAvailable (filter inStock vs) = Some b"
    by (simp add: bestCard_eq)
  from first_min_props [OF this] True show ?thesis by simp
next
  case False
  then have "filter inStock vs = []" by (auto simp: filter_empty_conv)
  with assms have "first_min price (filter (\<lambda>c. 0 < price c) vs) = Some b"
    by (simp add: bestCard_eq)
  from first_min_props [OF this] False show ?thesis by simp
qed

text \<open>
  C2. The claim's own scenario holds: of (500, stock 0, non-foil) and (500, stock 2,
  foil) the foil listing in stock is selected, in either input order.
\<close>

lemma C2_scenario_selects_stocked_foil:
  "consolidateCards toLowerCase_ascii [sc_plain, sc_foil] = [sc_foil] \<and>
   consolidateCards toLowerCase_ascii [sc_foil, sc_plain] = [sc_foil]"
  by (simp add: c2_scenario)

text \<open>
  C2. When no listing of a name is in stock, the second selection sorts by price alone:
  of a foil and a non-foil listing at the same price, both out of stock, the first in
  input order is kept, here the foil one. The tie-break of the first selection
  (non-foil before foil) is not applied.
\<close>

theorem C2_fallback_price_tie_keeps_foil:
  "consolidateCards toLowerCase_ascii [c2_foil, c2_plain] = [c2_foil] \<and>
   cardKey toLowerCase_ascii c2_foil = cardKey toLowerCase_ascii c2_plain \<and>
   price c2_foil = price c2_plain \<and> 0 < price c2_plain \<and>
   stock c2_foil = Num 0 \<and> stock c2_plain = Num 0 \<and>
   foil c2_foil \<and> \<not> foil c2_plain"
  by (simp add: c2_eval)

section \<open>Properties of the priority sort and of the live enumerator\<close>

lemma startsWith_iff: "startsWith s p \<longleftrightarrow> (\<exists>b. s = p @ b)"
  by (induction s p rule: startsWith.induct) auto

lemma str_includes_iff: "str_includes s p \<longleftrightarrow> (\<exists>a b. s = a @ p @ b)"
proof (induction s)
  case Nil
  then show ?case by simp
next
  case (Cons c cs)
  show ?case
  proof
    assume "str_includes (c # cs) p"
    then consider "startsWith (c # cs) p" | "str_includes cs p" by auto
    then show "\<exists>a b. c # cs = a @ p @ b"
    proof cases
      case 1
      then obtain b where "c # cs = p @ b" by (auto simp: startsWith_iff)
      then have "c # cs = [] @ p @ b" by simp
      then show ?thesis by blast
    next
      case 2
      with Cons obtain a b where "cs = a @ p @ b" by auto
      then have "c # cs = (c # a) @ p @ b" by simp
      then show ?thesis by blast
    qed
  next
    assume "\<exists>a b. c # cs = a @ p @ b"
    then obtain a b where ab: "c # cs = a @ p @ b" by blast
    show "str_includes (c # cs) p"
    proof (cases a)
      case Nil
      with ab have "startsWith (c # cs) p" by (auto simp: startsWith_iff)
      then show ?thesis by simp
    next
      case (Cons x a')
      with ab have "cs = a' @ p @ b" by simp
      with Cons.IH have "str_includes cs p" by blast
      then show ?thesis by simp
    qed
  qed
qed

lemma findIndex_from_range:
  "findIndex_from i P xs = - 1 \<or> (i \<le> findIndex_from i P xs \<and> findIndex_from i P xs < i + int (length xs))"
  by (induction i P xs rule: findIndex_from.induct) auto

lemma findIndex_from_none:
  "0 \<le> i \<Longrightarrow> findIndex_from i P xs = - 1 \<longleftrightarrow> (\<forall>x \<in> set xs. \<not> P x)"
proof (induction i P xs rule: findIndex_from.induct)
  case (1 i P)
  then show ?case by simp
next
  case (2 i P x xs)
  then show ?case by auto
qed

lemma findIndex_from_first:
  "0 \<le> i \<Longrightarrow> findIndex_from i P xs = j \<Longrightarrow> j \<noteq> - 1 \<Longrightarrow>
     P (xs ! nat (j - i)) \<and> (\<forall>m < nat (j - i). \<not> P (xs ! m))"
proof (induction i P xs arbitrary: j rule: findIndex_from.induct)
  case (1 i P)
  then show ?case by simp
next
  case (2 i P x xs)
  show ?case
  proof (cases "P x")
    case True
    with 2 show ?thesis by simp
  next
    case False
    with 2 have f: "findIndex_from (i + 1) P xs = j" by simp
    from findIndex_from_range [of "i + 1" P xs] f 2(4) have r: "i + 1 \<le> j" by auto
    from 2(1) [OF False _ f 2(4)] 2(2)
    have IH: "P (xs ! nat (j - (i + 1)))" "\<forall>m < nat (j - (i + 1)). \<not> P (xs ! m)" by auto
    from r have n: "nat (j - i) = Suc (nat (j - (i + 1)))" by simp
    have "\<not> P ((x # xs) ! m)" if "m < nat (j - i)" for m
      using that False IH(2) n by (cases m) auto
    with IH(1) n show ?thesis by simp
  qed
qed

lemma priorityIndex_none: "priorityIndex prio c = - 1 \<longleftrightarrow> \<not> hasPriority prio c"
  by (simp add: priorityIndex_def findIndex_def findIndex_from_none hasPriority_def)

lemma priorityIndex_range:
  "hasPriority prio c \<Longrightarrow> 0 \<le> priorityIndex prio c \<and> priorityIndex prio c < int (length prio)"
  using findIndex_from_range [of 0 "\<lambda>p. str_includes (cname c) p" prio] priorityIndex_none [of prio c]
  by (auto simp: priorityIndex_def findIndex_def)

lemma priorityIndex_first:
  assumes "hasPriority prio c"
  shows "str_includes (cname c) (prio ! nat (priorityIndex prio c)) \<and>
         (\<forall>m < nat (priorityIndex prio c). \<not> str_includes (cname c) (prio ! m))"
  using findIndex_from_first [of 0 "\<lambda>p. str_includes (cname c) p" prio "priorityIndex prio c"]
    assms priorityIndex_none [of prio c]
  by (simp add: priorityIndex_def findIndex_def)

lemma cmpPriority_key: "(cmpPriority prio a b \<le> 0) = (priorityRank prio a \<le> priorityRank prio b)"
proof -
  have r: "priorityIndex prio c = - 1 \<or> (0 \<le> priorityIndex prio c \<and> priorityIndex prio c < int (length prio))" for c
    using priorityIndex_range [of prio c] priorityIndex_none [of prio c] by blast
  show ?thesis
    using r [of a] r [of b]
    by (auto simp: cmpPriority_def Let_def priorityRank_def priorityIndex_def)
qed

lemma sortCollections_sort_key: "sortCollections prio cs = sort_key (priorityRank prio) cs"
  by (simp add: sortCollections_def js_sort_key [of "cmpPriority prio" "priorityRank prio", OF cmpPriority_key])

lemma sorted_split:
  "sorted (map k ys) \<Longrightarrow> ys = filter (\<lambda>x. k x < (n :: int)) ys @ filter (\<lambda>x. \<not> k x < n) ys"
proof (induction ys)
  case Nil
  then show ?case by simp
next
  case (Cons y ys)
  show ?case
  proof (cases "k y < n")
    case True
    with Cons show ?thesis by simp
  next
    case False
    with Cons.prems have "\<forall>x \<in> set ys. \<not> k x < n" by auto
    then have "filter (\<lambda>x. k x < n) ys = []" "filter (\<lambda>x. \<not> k x < n) ys = ys"
      by (simp_all add: filter_empty_conv filter_id_conv)
    with False show ?thesis by simp
  qed
qed

lemma rank_less: "priorityRank prio c < int (length prio) \<longleftrightarrow> hasPriority prio c"
  using priorityIndex_range [of prio c] priorityIndex_none [of prio c]
  by (auto simp: priorityRank_def)

lemma rank_eq_index: "hasPriority prio c \<Longrightarrow> priorityRank prio c = priorityIndex prio c"
  using priorityIndex_none [of prio c] by (simp add: priorityRank_def)

lemma rank_top: "priorityRank prio c = int (length prio) \<longleftrightarrow> \<not> hasPriority prio c"
  using priorityIndex_range [of prio c] priorityIndex_none [of prio c]
  by (auto simp: priorityRank_def)

lemma sort_keeps_index_classes:
  "filter (\<lambda>c. priorityIndex prio c = i) (sortCollections prio cs) =
   filter (\<lambda>c. priorityIndex prio c = i) cs"
proof -
  let ?n = "int (length prio)"
  consider "i = - 1" | "0 \<le> i" "i < ?n" | "i \<noteq> - 1" "\<not> (0 \<le> i \<and> i < ?n)" by blast
  then show ?thesis
  proof cases
    case 1
    have "filter (\<lambda>c. priorityIndex prio c = i) xs = filter (\<lambda>c. priorityRank prio c = ?n) xs" for xs
      by (rule filter_cong) (simp_all add: 1 rank_top priorityIndex_none)
    then show ?thesis by (simp add: sortCollections_sort_key sort_key_stable)
  next
    case 2
    have "(priorityIndex prio c = i) = (priorityRank prio c = i)" for c
      using 2 priorityIndex_range [of prio c] priorityIndex_none [of prio c]
      by (auto simp: priorityRank_def)
    then have "filter (\<lambda>c. priorityIndex prio c = i) xs = filter (\<lambda>c. priorityRank prio c = i) xs" for xs
      by simp
    then show ?thesis by (simp add: sortCollections_sort_key sort_key_stable)
  next
    case 3
    have "priorityIndex prio c \<noteq> i" for c
      using 3 priorityIndex_range [of prio c] priorityIndex_none [of prio c] by auto
    then show ?thesis by simp
  qed
qed

text \<open>
  C8. The sorted list is the collections that contain a priority term, followed by all
  other collections in their discovery order. The collections in front are ordered by
  the index of the first priority term their name contains; collections with the same
  index keep their discovery order; the sorted list is a rearrangement of the discovered
  one. With the priority list Bloomburrow, Commander and the discovered collections
  Foundations, Bloomburrow: Alania, Commander Masters the order is Bloomburrow: Alania,
  Commander Masters, Foundations.
\<close>

theorem C8_priority_collections_first:
  "sortCollections prio cs =
     filter (hasPriority prio) (sortCollections prio cs) @ filter (\<lambda>c. \<not> hasPriority prio c) cs \<and>
   sorted (map (priorityIndex prio) (filter (hasPriority prio) (sortCollections prio cs))) \<and>
   (\<forall>i. filter (\<lambda>c. priorityIndex prio c = i) (sortCollections prio cs) =
        filter (\<lambda>c. priorityIndex prio c = i) cs) \<and>
   mset (sortCollections prio cs) = mset cs \<and>
   (\<forall>c \<in> set cs. hasPriority prio c \<longrightarrow>
        str_includes (cname c) (prio ! nat (priorityIndex prio c)) \<and>
        (\<forall>m < nat (priorityIndex prio c). \<not> str_includes (cname c) (prio ! m))) \<and>
   map cname (sortCollections scenario_priority scenario_discovered) =
     map js [''Bloomburrow: Alania'', ''Commander Masters'', ''Foundations'']"
proof -
  let ?s = "sortCollections prio cs"
  let ?n = "int (length prio)"
  have srt: "sorted (map (priorityRank prio) ?s)"
    by (simp add: sortCollections_sort_key)
  have f1: "filter (\<lambda>c. priorityRank prio c < ?n) xs = filter (hasPriority prio) xs" for xs
    by (rule filter_cong) (simp_all add: rank_less)
  have f2: "filter (\<lambda>c. \<not> priorityRank prio c < ?n) xs = filter (\<lambda>c. \<not> hasPriority prio c) xs" for xs
    by (rule filter_cong) (simp_all add: rank_less)
  have f3: "filter (\<lambda>c. \<not> hasPriority prio c) xs = filter (\<lambda>c. priorityRank prio c = ?n) xs" for xs
    by (rule filter_cong) (simp_all add: rank_top)
  have st: "filter (\<lambda>c. \<not> hasPriority prio c) ?s = filter (\<lambda>c. \<not> hasPriority prio c) cs"
    by (simp add: f3 sortCollections_sort_key sort_key_stable)
  from sorted_split [OF srt, of ?n]
  have c1: "?s = filter (hasPriority prio) ?s @ filter (\<lambda>c. \<not> hasPriority prio c) cs"
    by (simp add: f1 f2 st)
  have me: "map (priorityIndex prio) (filter (hasPriority prio) ?s) =
        map (priorityRank prio) (filter (hasPriority prio) ?s)"
    by (rule map_cong) (simp_all add: rank_eq_index)
  have "sorted (map (priorityRank prio) (filter (hasPriority prio) ?s))"
    using srt by (simp add: sorted_map sorted_wrt_filter)
  then have c2: "sorted (map (priorityIndex prio) (filter (hasPriority prio) ?s))"
    unfolding me .
  have c4: "mset ?s = mset cs"
    by (simp add: sortCollections_sort_key)
  have c5: "str_includes (cname c) (prio ! nat (priorityIndex prio c)) \<and>
        (\<forall>m < nat (priorityIndex prio c). \<not> str_includes (cname c) (prio ! m))"
    if "hasPriority prio c" for c
    using that by (rule priorityIndex_first)
  have c6: "map cname (sortCollections scenario_priority scenario_discovered) =
     map js [''Bloomburrow: Alania'', ''Commander Masters'', ''Foundations'']"
    by code_simp
  from c1 c2 c4 c5 c6 sort_keeps_index_classes show ?thesis by blast
qed

lemma scenario_sort_facts:
  "mk_collection ''Bloomburrow: Alania'' ''2'' \<in> set scenario_discovered"
  "hasPriority scenario_priority (mk_collection ''Bloomburrow: Alania'' ''2'')"
  "priorityIndex scenario_priority (mk_collection ''Bloomburrow: Alania'' ''2'') = 0"
  "map cname (sortCollections scenario_priority scenario_discovered) =
     map js [''Bloomburrow: Alania'', ''Commander Masters'', ''Foundations'']"
  "map cname (sortCollections priorityCollections scenario_discovered) =
     map js [''Foundations'', ''Bloomburrow: Alania'', ''Commander Masters'']"
  by code_simp+

theorem C8_priority_collections_witness:
  "mk_collection ''Bloomburrow: Alania'' ''2'' \<in> set scenario_discovered \<and>
   hasPriority scenario_priority (mk_collection ''Bloomburrow: Alania'' ''2'') \<and>
   str_includes (cname (mk_collection ''Bloomburrow: Alania'' ''2''))
     (scenario_priority ! nat (priorityIndex scenario_priority (mk_collection ''Bloomburrow: Alania'' ''2''))) \<and>
   sorted (map (priorityIndex scenario_priority)
     (filter (hasPriority scenario_priority) (sortCollections scenario_priority scenario_discovered)))"
proof -
  note c8 = C8_priority_collections_first [of scenario_priority scenario_discovered]
  note A = c8 [THEN conjunct2, THEN conjunct1]
  note B = c8 [THEN conjunct2, THEN conjunct2, THEN conjunct2, THEN conjunct2, THEN conjunct1,
    rule_format, OF scenario_sort_facts(1) scenario_sort_facts(2), THEN conjunct1]
  from A B scenario_sort_facts(1,2) show ?thesis by blast
qed

lemma live_dup_eval:
  "map (\<lambda>c. (cid c, cname c)) (parseCollections (Some [dup_anchor, dup_anchor])) =
     [(js ''1234'', js ''Foundations''), (js ''1234'', js ''Foundations'')]"
  "map (\<lambda>c. (cid c, cname c)) (parseCollectionsFromHTML (Some [dup_anchor, dup_anchor])) =
     [(js ''1234'', js ''Foundations'')]"
  by code_simp+

text \<open>
  The saved-snapshot strategy returns no two collections with the same (id, name) pair
  (lemma parseCollectionsFromHTML_distinct above).

  C9. The live strategy has no such check: a catalogue page that links the same
  collection twice, with the same text, gives two entries with the same (id, name)
  pair, where the saved-snapshot strategy gives one.
\<close>

theorem C9_live_catalogue_keeps_duplicates:
  "map (\<lambda>c. (cid c, cname c)) (parseCollections (Some [dup_anchor, dup_anchor])) =
     [(js ''1234'', js ''Foundations''), (js ''1234'', js ''Foundations'')] \<and>
   \<not> distinct (map (\<lambda>c. (cid c, cname c)) (parseCollections (Some [dup_anchor, dup_anchor]))) \<and>
   map (\<lambda>c. (cid c, cname c)) (parseCollectionsFromHTML (Some [dup_anchor, dup_anchor])) =
     [(js ''1234'', js ''Foundations'')]"
  by (simp add: live_dup_eval)

section \<open>The price conversion\<close>

text \<open>
  Rounding to binary64 changes a positive number by at most the fraction 2^-53 of it.
\<close>

lemma pow2_pos: "0 < pow2 e"
  by (simp add: pow2_def)

lemma pow2_powi: "pow2 e = 2 powi e"
  by (simp add: pow2_def power_int_def inverse_eq_divide power_one_over)

lemma pow2_add: "pow2 (a + b) = pow2 a * pow2 b"
  by (simp add: pow2_powi power_int_add)

lemma pow2_neg: "pow2 (- a) = 1 / pow2 a"
  by (simp add: pow2_powi power_int_minus inverse_eq_divide)

lemma pow2_mono: "a \<le> b \<Longrightarrow> pow2 a \<le> pow2 b"
  by (simp add: pow2_powi power_int_increasing)

lemma pow2_nat: "pow2 (int n) = 2 ^ n"
  by (simp add: pow2_def)

lemma quotient_of_pos:
  assumes "0 < x" "quotient_of x = (p, q)"
  shows "0 < p" "0 < q" "x = of_int p / of_int q"
proof -
  from assms(2) show q: "0 < q" by (rule quotient_of_denom_pos)
  from assms(2) show x: "x = of_int p / of_int q" by (rule quotient_of_div)
  from assms(1) x q show "0 < p" by (simp add: zero_less_divide_iff)
qed

lemma bitlen_pow2:
  assumes "0 < p"
  shows "pow2 (bitlen p - 1) \<le> of_int p" "of_int p < pow2 (bitlen p)"
proof -
  from bitlen_bounds [OF assms] have a: "2 ^ nat (bitlen p - 1) \<le> p" and b: "p < 2 ^ nat (bitlen p)"
    by auto
  have bl: "0 < bitlen p"
  proof (rule ccontr)
    assume "\<not> 0 < bitlen p"
    then have "nat (bitlen p) = 0" by simp
    with b assms show False by simp
  qed
  have "pow2 (bitlen p - 1) = of_int (2 ^ nat (bitlen p - 1))"
    using bl by (simp add: pow2_def)
  also have "\<dots> \<le> of_int p" using a by (simp only: of_int_le_iff)
  finally show "pow2 (bitlen p - 1) \<le> of_int p" .
  have "(of_int p :: rat) < of_int (2 ^ nat (bitlen p))" using b by (simp only: of_int_less_iff)
  also have "\<dots> = pow2 (bitlen p)" using bl by (simp add: pow2_def)
  finally show "of_int p < pow2 (bitlen p)" .
qed

lemma floor_log2_bounds:
  assumes "0 < x"
  shows "pow2 (floor_log2 x) \<le> x \<and> x < pow2 (floor_log2 x + 1)"
proof -
  obtain p q where pq: "quotient_of x = (p, q)" by (cases "quotient_of x")
  note f = quotient_of_pos [OF assms pq]
  let ?d = "bitlen p - bitlen q"
  have lo: "pow2 (?d - 1) \<le> x"
  proof -
    have "pow2 (?d - 1) = pow2 ((bitlen p - 1) + (- bitlen q))"
      by (rule arg_cong [where f = pow2]) simp
    also have "\<dots> = pow2 (bitlen p - 1) * pow2 (- bitlen q)"
      by (rule pow2_add)
    also have "\<dots> = pow2 (bitlen p - 1) / pow2 (bitlen q)"
      by (simp add: pow2_neg)
    also have "\<dots> \<le> of_int p / pow2 (bitlen q)"
      using bitlen_pow2(1) [OF f(1)] pow2_pos [of "bitlen q"] by (simp add: divide_right_mono)
    also have "\<dots> \<le> of_int p / of_int q"
    proof (rule divide_left_mono)
      show "of_int q \<le> pow2 (bitlen q)" using bitlen_pow2(2) [OF f(2)] by simp
      show "(0::rat) \<le> of_int p" using f(1) by simp
      show "0 < pow2 (bitlen q) * of_int q" using f(2) pow2_pos [of "bitlen q"] by simp
    qed
    finally show ?thesis using f(3) by simp
  qed
  have hi: "x < pow2 (?d + 1)"
  proof -
    have "x = of_int p / of_int q" by (rule f(3))
    also have "\<dots> < pow2 (bitlen p) / of_int q"
      using bitlen_pow2(2) [OF f(1)] f(2) by (simp add: divide_strict_right_mono)
    also have "\<dots> \<le> pow2 (bitlen p) / pow2 (bitlen q - 1)"
    proof (rule divide_left_mono)
      show "pow2 (bitlen q - 1) \<le> of_int q" by (rule bitlen_pow2(1) [OF f(2)])
      show "0 \<le> pow2 (bitlen p)" using pow2_pos [of "bitlen p"] by simp
      show "0 < of_int q * pow2 (bitlen q - 1)" using f(2) pow2_pos [of "bitlen q - 1"] by simp
    qed
    also have "\<dots> = pow2 (bitlen p) * pow2 (- (bitlen q - 1))"
      by (simp only: pow2_neg times_divide_eq_right mult_1_right)
    also have "\<dots> = pow2 (bitlen p + (- (bitlen q - 1)))"
      by (rule pow2_add [symmetric])
    also have "\<dots> = pow2 (?d + 1)"
      by (rule arg_cong [where f = pow2]) simp
    finally show ?thesis .
  qed
  show ?thesis
  proof (cases "pow2 ?d \<le> x")
    case True
    with hi pq show ?thesis by (simp add: floor_log2_def)
  next
    case False
    with lo pq show ?thesis by (simp add: floor_log2_def)
  qed
qed

lemma round_half_even_err: "\<bar>of_int (round_half_even y) - y\<bar> \<le> 1 / 2"
proof -
  have a: "of_int \<lfloor>y\<rfloor> \<le> y" "y < of_int \<lfloor>y\<rfloor> + 1" by linarith+
  show ?thesis
    using a by (auto simp: round_half_even_def Let_def abs_le_iff not_less)
qed

lemma to_double_err:
  assumes "0 < x"
  shows "\<bar>to_double x - x\<bar> \<le> x / 2 ^ 53"
proof -
  let ?e = "floor_log2 x - 52"
  let ?y = "x / pow2 ?e"
  have td: "to_double x = of_int (round_half_even ?y) * pow2 ?e"
    using assms by (simp add: to_double_def round_positive_def Let_def)
  have "\<bar>to_double x - x\<bar> = \<bar>of_int (round_half_even ?y) - ?y\<bar> * pow2 ?e"
  proof -
    have "to_double x - x = (of_int (round_half_even ?y) - ?y) * pow2 ?e"
      using pow2_pos [of ?e] by (simp add: td field_simps)
    then show ?thesis using pow2_pos [of ?e] by (simp add: abs_mult)
  qed
  also have "\<dots> \<le> 1 / 2 * pow2 ?e"
    using round_half_even_err [of ?y] pow2_pos [of ?e] by (intro mult_right_mono) auto
  also have "\<dots> = pow2 (floor_log2 x) / 2 ^ 53"
  proof -
    have "pow2 (floor_log2 x) = pow2 (?e + 52)"
      by (rule arg_cong [where f = pow2]) simp
    also have "\<dots> = pow2 ?e * pow2 52" by (rule pow2_add)
    finally have "pow2 (floor_log2 x) = pow2 ?e * pow2 52" .
    then show ?thesis by (simp add: pow2_def)
  qed
  also have "\<dots> \<le> x / 2 ^ 53"
    using floor_log2_bounds [OF assms] by (simp add: divide_right_mono)
  finally show ?thesis .
qed

lemma to_double_pos: "0 < x \<Longrightarrow> 0 < to_double x"
proof -
  assume x: "0 < x"
  from to_double_err [OF x] have "x - x / 2 ^ 53 \<le> to_double x" by linarith
  moreover have "0 < x - x / 2 ^ 53" using x by (simp add: field_simps)
  ultimately show ?thesis by linarith
qed

























section \<open>Properties of the deck analysis\<close>

lemma candidateCards_mem:
  "(oc, co) \<in> set (candidateCards ok q avail) \<longleftrightarrow>
     oc \<in> set avail \<and> co \<in> set (conditions oc) \<and> condition co = q \<and> ok co"
  by (auto simp: candidateCards_def)

lemma cheapest_foldl:
  "foldl (\<lambda>best current. if price (snd current) < price (snd best) then current else best) x xs
     \<in> insert x (set xs) \<and>
   (\<forall>y \<in> insert x (set xs).
      price (snd (foldl (\<lambda>best current. if price (snd current) < price (snd best) then current else best) x xs))
        \<le> price (snd y))"
proof (induction xs arbitrary: x)
  case Nil
  then show ?case by simp
next
  case (Cons a xs)
  let ?f = "\<lambda>best current. if price (snd current) < price (snd best) then current else best"
  from Cons [of "?f x a"] show ?case by (auto split: if_splits)
qed

lemma cheapestInTier_props:
  assumes "xs \<noteq> []"
  shows "cheapestInTier xs \<in> set xs \<and> (\<forall>y \<in> set xs. price (snd (cheapestInTier xs)) \<le> price (snd y))"
proof -
  from assms obtain x xs' where xs: "xs = x # xs'" by (cases xs) auto
  show ?thesis unfolding xs using cheapest_foldl [of x xs'] by simp
qed

lemma tierLoop_Some:
  "tierLoop ok qs avail = Some r \<Longrightarrow>
     \<exists>i < length qs. candidateCards ok (qs ! i) avail \<noteq> [] \<and>
        r = cheapestInTier (candidateCards ok (qs ! i) avail) \<and>
        (\<forall>j < i. candidateCards ok (qs ! j) avail = [])"
proof (induction qs)
  case Nil
  then show ?case by simp
next
  case (Cons q qs)
  show ?case
  proof (cases "candidateCards ok q avail = []")
    case False
    with Cons.prems have "r = cheapestInTier (candidateCards ok q avail)"
      by (simp add: Let_def)
    with False show ?thesis by (intro exI [of _ 0]) simp
  next
    case True
    with Cons.prems have "tierLoop ok qs avail = Some r" by (simp add: Let_def)
    from Cons.IH [OF this] obtain i where i: "i < length qs"
      "candidateCards ok (qs ! i) avail \<noteq> []"
      "r = cheapestInTier (candidateCards ok (qs ! i) avail)"
      "\<forall>j < i. candidateCards ok (qs ! j) avail = []" by blast
    have "candidateCards ok ((q # qs) ! j) avail = []" if "j < Suc i" for j
      using that True i(4) by (cases j) auto
    with i show ?thesis by (intro exI [of _ "Suc i"]) simp
  qed
qed

lemma tierLoop_None:
  "tierLoop ok qs avail = None \<longleftrightarrow> (\<forall>q \<in> set qs. candidateCards ok q avail = [])"
  by (induction qs) (auto simp: Let_def)

lemma candidates_empty:
  "candidateCards ok q avail = [] \<longleftrightarrow>
     \<not> (\<exists>oc \<in> set avail. \<exists>co \<in> set (conditions oc). condition co = q \<and> ok co)"
proof -
  have "candidateCards ok q avail = [] \<longleftrightarrow> set (candidateCards ok q avail) = {}" by simp
  also have "\<dots> \<longleftrightarrow> \<not> (\<exists>oc co. (oc, co) \<in> set (candidateCards ok q avail))"
    by (metis all_not_in_conv surj_pair)
  also have "\<dots> \<longleftrightarrow> \<not> (\<exists>oc \<in> set avail. \<exists>co \<in> set (conditions oc). condition co = q \<and> ok co)"
    unfolding candidateCards_mem by blast
  finally show ?thesis .
qed

lemma tierLoop_None_any: "tierLoop ok qualityOrder avail = None \<longleftrightarrow> \<not> anyOffer ok avail"
  unfolding tierLoop_None candidates_empty anyOffer_def by blast

lemma tierLoop_best:
  assumes "tierLoop ok qualityOrder avail = Some r"
  shows "bestInTier ok avail r"
proof -
  from tierLoop_Some [OF assms] obtain i where i: "i < length qualityOrder"
    "candidateCards ok (qualityOrder ! i) avail \<noteq> []"
    "r = cheapestInTier (candidateCards ok (qualityOrder ! i) avail)"
    "\<forall>j < i. candidateCards ok (qualityOrder ! j) avail = []" by blast
  let ?C = "candidateCards ok (qualityOrder ! i) avail"
  from cheapestInTier_props [OF i(2)] i(3)
  have m: "r \<in> set ?C" and le: "\<forall>y \<in> set ?C. price (snd r) \<le> price (snd y)" by auto
  from m have r: "fst r \<in> set avail" "snd r \<in> set (conditions (fst r))"
    "condition (snd r) = qualityOrder ! i" "ok (snd r)"
    using candidateCards_mem [of "fst r" "snd r" ok "qualityOrder ! i" avail] by auto
  have o: "(\<forall>j < i. condition co \<noteq> qualityOrder ! j) \<and>
           (condition co = qualityOrder ! i \<longrightarrow> price (snd r) \<le> price co)"
    if "oc \<in> set avail" "co \<in> set (conditions oc)" "ok co" for oc co
  proof (intro conjI allI impI)
    fix j assume "j < i"
    with i(4) have "candidateCards ok (qualityOrder ! j) avail = []" by blast
    with that show "condition co \<noteq> qualityOrder ! j"
      unfolding candidates_empty by blast
  next
    assume "condition co = qualityOrder ! i"
    with that have "(oc, co) \<in> set ?C" by (simp add: candidateCards_mem)
    with le show "price (snd r) \<le> price co" by force
  qed
  show ?thesis
    unfolding bestInTier_def using r o i(1) by blast
qed

lemma stockedOffer_eta: "(\<lambda>co. 0 < price co \<and> num_gt0 (stock co)) = stockedOffer"
  by (simp add: stockedOffer_def fun_eq_iff)

lemma pricedOffer_eta: "(\<lambda>co. 0 < price co) = pricedOffer"
  by (simp add: pricedOffer_def fun_eq_iff)

lemma priceEuros_zero:
  assumes "\<And>r. found = Some r \<Longrightarrow> 0 < price (snd r)"
  shows "priceEuros found = 0 \<longleftrightarrow> found = None"
proof (cases found)
  case None
  then show ?thesis by (simp add: priceEuros_def)
next
  case (Some r)
  obtain oc co where r: "r = (oc, co)" by (cases r)
  from assms [OF Some] r have "0 < (of_int (price co) / 100 :: rat)" by simp
  from to_double_pos [OF this] Some r show ?thesis by (simp add: priceEuros_def)
qed

lemma bestOffer_stocked:
  assumes "anyOffer stockedOffer avail"
  shows "\<exists>r. bestOffer avail = Some r \<and> bestInTier stockedOffer avail r"
proof -
  from assms have "tierLoop stockedOffer qualityOrder avail \<noteq> None"
    by (simp add: tierLoop_None_any)
  then obtain r where r: "tierLoop stockedOffer qualityOrder avail = Some r" by auto
  from tierLoop_best [OF r] have b: "bestInTier stockedOffer avail r" .
  then have "0 < price (snd r)" by (simp add: bestInTier_def stockedOffer_def)
  then have "priceEuros (Some r) \<noteq> 0"
    using priceEuros_zero [of "Some r"] by simp
  then have "bestOffer avail = Some r"
    by (simp add: bestOffer_def stockedOffer_eta pricedOffer_eta r Let_def)
  with b show ?thesis by blast
qed

lemma bestOffer_unstocked:
  assumes "\<not> anyOffer stockedOffer avail"
  shows "bestOffer avail = tierLoop pricedOffer qualityOrder avail"
proof -
  from assms have "tierLoop stockedOffer qualityOrder avail = None"
    by (simp add: tierLoop_None_any)
  then show ?thesis
    by (simp add: bestOffer_def stockedOffer_eta pricedOffer_eta Let_def priceEuros_def split: option.splits)
qed

lemma matchByName_eq:
  "matchByName lower outpostData dc = filter hasValidPriceCondition (nameMatches lower outpostData dc)"
  by (simp add: matchByName_def nameMatches_def Let_def)

lemma bestOffer_cases:
  "(anyOffer stockedOffer avail \<longrightarrow>
      (\<exists>r. bestOffer avail = Some r \<and> bestInTier stockedOffer avail r)) \<and>
   (\<not> anyOffer stockedOffer avail \<and> anyOffer pricedOffer avail \<longrightarrow>
      (\<exists>r. bestOffer avail = Some r \<and> bestInTier pricedOffer avail r)) \<and>
   (\<not> anyOffer pricedOffer avail \<longrightarrow> bestOffer avail = None \<and> bestPrice avail = 0)"
proof -
  have c: "\<exists>r. bestOffer avail = Some r \<and> bestInTier pricedOffer avail r"
    if "\<not> anyOffer stockedOffer avail" "anyOffer pricedOffer avail"
  proof -
    from that(2) have "tierLoop pricedOffer qualityOrder avail \<noteq> None"
      by (simp add: tierLoop_None_any)
    then obtain r where r: "tierLoop pricedOffer qualityOrder avail = Some r" by auto
    from tierLoop_best [OF r] bestOffer_unstocked [OF that(1)] r show ?thesis by simp
  qed
  have d: "bestOffer avail = None \<and> bestPrice avail = 0" if "\<not> anyOffer pricedOffer avail"
  proof -
    from that have "\<not> anyOffer stockedOffer avail"
      by (auto simp: anyOffer_def stockedOffer_def pricedOffer_def)
    from bestOffer_unstocked [OF this] that have "bestOffer avail = None"
      by (simp add: tierLoop_None_any)
    then show ?thesis by (simp add: bestPrice_def priceEuros_def)
  qed
  from c d bestOffer_stocked [of avail] show ?thesis by blast
qed

lemma availableFor_eq:
  "availableFor lower outpostData style dc =
     (if style \<and> filter (setMatches lower dc) (keptCards lower outpostData dc) \<noteq> []
      then filter (setMatches lower dc) (keptCards lower outpostData dc)
      else keptCards lower outpostData dc)"
  by (simp add: availableFor_def cardAvailabilityOf_def Let_def styleFilter_def matchByName_eq
        keptCards_def)

lemma cheapestPrice_eq:
  "cheapestPrice (cardAvailabilityOf lower outpostData style dc) =
     bestPrice (availableFor lower outpostData style dc)"
  by (simp add: availableFor_def cardAvailabilityOf_def Let_def)

text \<open>
  C4, amended. The cards kept for a requested name are the inventory cards with a
  priced condition among: the cards with the same name up to case; if there are none,
  the cards whose name contains the requested name; only if there are none either, the
  cards whose name is contained in the requested name. With the match-card-style option
  on, when some kept card matches the requested set, only the kept cards that match it
  are available; otherwise all kept cards are. The price returned is that of the best
  offer among the available cards, in euros. When some tier has an offer that is priced
  and in stock, the best offer is a cheapest offer that is priced and in stock of the
  best tier that has such an offer. When no tier has one, it is a cheapest priced offer
  of the best tier that has a priced offer. Without a priced offer in a tier the price
  is 0.
\<close>

theorem C4_best_offer_of_best_tier:
  "keptCards lower outpostData dc =
     filter hasValidPriceCondition
       (if filter (\<lambda>oc. lower (name oc) = lower (mx_name dc)) outpostData \<noteq> []
        then filter (\<lambda>oc. lower (name oc) = lower (mx_name dc)) outpostData
        else if filter (\<lambda>oc. str_includes (lower (name oc)) (lower (mx_name dc))) outpostData \<noteq> []
        then filter (\<lambda>oc. str_includes (lower (name oc)) (lower (mx_name dc))) outpostData
        else filter (\<lambda>oc. str_includes (lower (mx_name dc)) (lower (name oc))) outpostData) \<and>
   availableFor lower outpostData style dc =
     (if style \<and> filter (setMatches lower dc) (keptCards lower outpostData dc) \<noteq> []
      then filter (setMatches lower dc) (keptCards lower outpostData dc)
      else keptCards lower outpostData dc) \<and>
   cheapestPrice (cardAvailabilityOf lower outpostData style dc) =
     (case bestOffer (availableFor lower outpostData style dc) of
        None \<Rightarrow> 0
      | Some r \<Rightarrow> to_double (of_int (price (snd r)) / 100)) \<and>
   (anyOffer stockedOffer (availableFor lower outpostData style dc) \<longrightarrow>
      (\<exists>r. bestOffer (availableFor lower outpostData style dc) = Some r \<and>
           bestInTier stockedOffer (availableFor lower outpostData style dc) r)) \<and>
   (\<not> anyOffer stockedOffer (availableFor lower outpostData style dc) \<and>
    anyOffer pricedOffer (availableFor lower outpostData style dc) \<longrightarrow>
      (\<exists>r. bestOffer (availableFor lower outpostData style dc) = Some r \<and>
           bestInTier pricedOffer (availableFor lower outpostData style dc) r)) \<and>
   (\<not> anyOffer pricedOffer (availableFor lower outpostData style dc) \<longrightarrow>
      bestOffer (availableFor lower outpostData style dc) = None \<and>
      cheapestPrice (cardAvailabilityOf lower outpostData style dc) = 0)"
proof -
  let ?avail = "availableFor lower outpostData style dc"
  have k: "keptCards lower outpostData dc =
     filter hasValidPriceCondition
       (if filter (\<lambda>oc. lower (name oc) = lower (mx_name dc)) outpostData \<noteq> []
        then filter (\<lambda>oc. lower (name oc) = lower (mx_name dc)) outpostData
        else if filter (\<lambda>oc. str_includes (lower (name oc)) (lower (mx_name dc))) outpostData \<noteq> []
        then filter (\<lambda>oc. str_includes (lower (name oc)) (lower (mx_name dc))) outpostData
        else filter (\<lambda>oc. str_includes (lower (mx_name dc)) (lower (name oc))) outpostData)"
    by (simp add: keptCards_def nameMatches_def Let_def)
  have p: "cheapestPrice (cardAvailabilityOf lower outpostData style dc) =
     (case bestOffer ?avail of None \<Rightarrow> 0 | Some r \<Rightarrow> to_double (of_int (price (snd r)) / 100))"
    by (simp add: cheapestPrice_eq bestPrice_def priceEuros_def split: option.splits prod.splits)
  note cs = bestOffer_cases [of ?avail]
  have z: "bestOffer ?avail = None \<and>
      cheapestPrice (cardAvailabilityOf lower outpostData style dc) = 0"
    if "\<not> anyOffer pricedOffer ?avail"
    using cs that by (simp add: cheapestPrice_eq)
  from k availableFor_eq [of lower outpostData style dc] p cs z show ?thesis by blast
qed

lemma plain_conditions: "conditions (variant nm cl p st fl) = [plain_offer p st]"
  by (simp add: variant_def plain_offer_def)

lemma c4_eval:
  "availableFor toLowerCase_ascii [c4_card] False c4_request = [c4_card]"
  "bestOffer [c4_card] = Some (c4_card, c4_nm)"
  "cheapestPrice (cardAvailabilityOf toLowerCase_ascii [c4_card] False c4_request) = 10"
  "price c4_nm = 1000" "price c4_hp = 100" "stock c4_nm = Num 0" "stock c4_hp = Num 0"
  "conditions c4_card = [c4_nm, c4_hp]"
  "condition c4_hp = js ''HP''"
  by code_simp+

lemma c4_any:
  "\<not> anyOffer stockedOffer [c4_card]" "anyOffer pricedOffer [c4_card]"
  by (simp_all add: anyOffer_def c4_eval stockedOffer_def pricedOffer_def qualityOrder_def)

lemma c4_staged_eval:
  "availableFor toLowerCase_ascii [c4_shorter, c4_longer] False c4_request = [c4_longer]"
  "str_includes (toLowerCase_ascii (mx_name c4_request)) (toLowerCase_ascii (name c4_shorter))"
  "hasValidPriceCondition c4_shorter"
  "bestOffer [c4_shorter, c4_longer] = Some (c4_shorter, plain_offer 50 4)"
  "bestOffer [c4_longer] = Some (c4_longer, plain_offer 500 2)"
  "cheapestPrice
     (cardAvailabilityOf toLowerCase_ascii [c4_shorter, c4_longer] False c4_request) = 5"
  "anyOffer stockedOffer [c4_longer]"
  by code_simp+

lemma c4_style_eval:
  "keptCards toLowerCase_ascii [c4_cmm, c4_fdn] c4_request = [c4_cmm, c4_fdn]"
  "availableFor toLowerCase_ascii [c4_cmm, c4_fdn] True c4_request = [c4_cmm]"
  "availableFor toLowerCase_ascii [c4_cmm, c4_fdn] False c4_request = [c4_cmm, c4_fdn]"
  "bestOffer [c4_cmm, c4_fdn] = Some (c4_fdn, plain_offer 100 3)"
  "bestOffer [c4_cmm] = Some (c4_cmm, plain_offer 26 0)"
  "cheapestPrice (cardAvailabilityOf toLowerCase_ascii [c4_cmm, c4_fdn] True c4_request) =
     to_double (26 / 100)"
  "cheapestPrice (cardAvailabilityOf toLowerCase_ascii [c4_cmm, c4_fdn] False c4_request) = 1"
  "\<not> anyOffer stockedOffer [c4_cmm]" "anyOffer pricedOffer [c4_cmm]"
  "anyOffer stockedOffer [c4_cmm, c4_fdn]"
  by code_simp+

lemma c4_mint_eval:
  "availableFor toLowerCase_ascii [c4_mint] False c4_request = [c4_mint]"
  "\<not> anyOffer pricedOffer [c4_mint]"
  by code_simp+

text \<open>
  Within the best tier the offer returned is itself in stock: of two EX/GD offers, at
  200 out of stock and at 300 in stock, the one at 300 is returned.
\<close>

lemma bestOffer_skips_unstocked:
  "bestOffer [c4_exgd] = Some (c4_exgd, (plain_offer 300 1)\<lparr>condition := js ''EX/GD''\<rparr>)"
  by code_simp

text \<open>
  C4, as stated, fails in three ways. (1) With offers NM/M at 1000 and HP at 100, both
  out of stock, no tier has stock and the offer returned is the NM/M one at 10.00 EUR,
  not the cheapest priced offer regardless of tier (HP, 1.00 EUR). (2) With a card whose
  name contains the requested name (500, in stock) and a card whose name is contained
  in it (50, in stock), only the first is matched and 5.00 EUR is returned; matching by
  containment in either direction would give the offer at 0.50 EUR. (3) With the
  match-card-style option on, of two priced cards with the requested name only the one
  of the requested set is used: its out-of-stock offer at 26 is returned although the
  other card has an NM/M offer in stock at 100.
\<close>

theorem C4_matching_and_fallback_counterexample:
  "availableFor toLowerCase_ascii [c4_card] False c4_request = [c4_card] \<and>
   \<not> anyOffer stockedOffer [c4_card] \<and>
   c4_hp \<in> set (conditions c4_card) \<and> 0 < price c4_hp \<and>
   bestOffer [c4_card] = Some (c4_card, c4_nm) \<and> price c4_hp < price c4_nm \<and>
   cheapestPrice (cardAvailabilityOf toLowerCase_ascii [c4_card] False c4_request) = 10 \<and>
   availableFor toLowerCase_ascii [c4_shorter, c4_longer] False c4_request = [c4_longer] \<and>
   str_includes (toLowerCase_ascii (mx_name c4_request)) (toLowerCase_ascii (name c4_shorter)) \<and>
   hasValidPriceCondition c4_shorter \<and>
   bestOffer [c4_shorter, c4_longer] = Some (c4_shorter, plain_offer 50 4) \<and>
   cheapestPrice
     (cardAvailabilityOf toLowerCase_ascii [c4_shorter, c4_longer] False c4_request) = 5 \<and>
   keptCards toLowerCase_ascii [c4_cmm, c4_fdn] c4_request = [c4_cmm, c4_fdn] \<and>
   availableFor toLowerCase_ascii [c4_cmm, c4_fdn] True c4_request = [c4_cmm] \<and>
   bestOffer [c4_cmm, c4_fdn] = Some (c4_fdn, plain_offer 100 3) \<and>
   cheapestPrice (cardAvailabilityOf toLowerCase_ascii [c4_cmm, c4_fdn] True c4_request) =
     to_double (26 / 100)"
  by (simp add: c4_eval c4_any c4_staged_eval c4_style_eval)

theorem C4_best_offer_witness:
  "anyOffer stockedOffer (availableFor toLowerCase_ascii [c4_shorter, c4_longer] False c4_request) \<and>
   (\<exists>r. bestOffer (availableFor toLowerCase_ascii [c4_shorter, c4_longer] False c4_request) = Some r \<and>
        bestInTier stockedOffer
          (availableFor toLowerCase_ascii [c4_shorter, c4_longer] False c4_request) r) \<and>
   \<not> anyOffer stockedOffer (availableFor toLowerCase_ascii [c4_card] False c4_request) \<and>
   anyOffer pricedOffer (availableFor toLowerCase_ascii [c4_card] False c4_request) \<and>
   (\<exists>r. bestOffer (availableFor toLowerCase_ascii [c4_card] False c4_request) = Some r \<and>
        bestInTier pricedOffer (availableFor toLowerCase_ascii [c4_card] False c4_request) r) \<and>
   \<not> anyOffer pricedOffer (availableFor toLowerCase_ascii [c4_mint] False c4_request) \<and>
   cheapestPrice (cardAvailabilityOf toLowerCase_ascii [c4_mint] False c4_request) = 0 \<and>
   \<not> anyOffer stockedOffer (availableFor toLowerCase_ascii [c4_cmm, c4_fdn] True c4_request) \<and>
   anyOffer pricedOffer (availableFor toLowerCase_ascii [c4_cmm, c4_fdn] True c4_request) \<and>
   (\<exists>r. bestOffer (availableFor toLowerCase_ascii [c4_cmm, c4_fdn] True c4_request) = Some r \<and>
        bestInTier pricedOffer (availableFor toLowerCase_ascii [c4_cmm, c4_fdn] True c4_request) r)"
proof -
  note t1 = C4_best_offer_of_best_tier
    [of toLowerCase_ascii "[c4_shorter, c4_longer]" c4_request False]
  note t2 = C4_best_offer_of_best_tier [of toLowerCase_ascii "[c4_card]" c4_request False]
  note t3 = C4_best_offer_of_best_tier [of toLowerCase_ascii "[c4_mint]" c4_request False]
  note t4 = C4_best_offer_of_best_tier [of toLowerCase_ascii "[c4_cmm, c4_fdn]" c4_request True]
  have h1: "anyOffer stockedOffer
      (availableFor toLowerCase_ascii [c4_shorter, c4_longer] False c4_request)"
    by (simp add: c4_staged_eval)
  have h2: "\<not> anyOffer stockedOffer (availableFor toLowerCase_ascii [c4_card] False c4_request)"
    "anyOffer pricedOffer (availableFor toLowerCase_ascii [c4_card] False c4_request)"
    by (simp_all add: c4_eval c4_any)
  have h3: "\<not> anyOffer pricedOffer (availableFor toLowerCase_ascii [c4_mint] False c4_request)"
    by (simp add: c4_mint_eval)
  have h4: "\<not> anyOffer stockedOffer
      (availableFor toLowerCase_ascii [c4_cmm, c4_fdn] True c4_request)"
    "anyOffer pricedOffer (availableFor toLowerCase_ascii [c4_cmm, c4_fdn] True c4_request)"
    by (simp_all add: c4_style_eval)
  note a1 = t1 [THEN conjunct2, THEN conjunct2, THEN conjunct2, THEN conjunct1, rule_format, OF h1]
  note a2 = t2 [THEN conjunct2, THEN conjunct2, THEN conjunct2, THEN conjunct2, THEN conjunct1,
    rule_format, OF conjI, OF h2]
  note a3 = t3 [THEN conjunct2, THEN conjunct2, THEN conjunct2, THEN conjunct2, THEN conjunct2,
    rule_format, OF h3, THEN conjunct2]
  note a4 = t4 [THEN conjunct2, THEN conjunct2, THEN conjunct2, THEN conjunct2, THEN conjunct1,
    rule_format, OF conjI, OF h4]
  from h1 a1 h2 a2 h3 a3 h4 a4 show ?thesis by blast
qed

section \<open>Properties of the orchestrator\<close>

text \<open>
  In the scope of the \<open>catch\<close> clause \<open>allCards\<close> is not declared, so the clause leaves
  the world as it is: a run that aborts ends in the world at the throw.
\<close>

lemma function_scope_allCards: "function_scope ''allCards'' = None"
  by (simp add: function_scope_def)

lemma catch_block_function_scope: "catch_block function_scope w = w"
  by (simp add: catch_block_def function_scope_allCards)

lemma abort_keeps_world:
  "try_block lower w = Inl (st, w') \<Longrightarrow> scrapeAllCollections lower w = w'"
  by (simp add: scrapeAllCollections_def catch_block_function_scope)

lemma catch_block_try_scope:
  assumes "0 < length (allCards st)" "\<not> write_fails w (writes w)"
  shows "output_json (catch_block (try_scope st) w) = Some (expected_partial st w)"
  using assms by (simp add: catch_block_def try_scope_def writeOutput_def expected_partial_def)

lemma abort_eval:
  "(case try_block toLowerCase_ascii abort_world of
      Inl (st, w1) \<Rightarrow>
        map name (allCards st) = [js ''Sol Ring''] \<and> collectionsProcessed st = 1 \<and>
        output_json w1 = None \<and> writes w1 = 1 \<and> \<not> write_fails w1 (writes w1)
    | Inr w1 \<Rightarrow> False)"
  by code_simp

lemma abort_result: "output_json (scrapeAllCollections toLowerCase_ascii abort_world) = None"
  by code_simp

text \<open>
  When every write succeeds the run writes the final output, with its metadata, and
  deletes the progress file. Resumed from a progress file whose skipped ids hold a null,
  the run processes the collection and then throws while building the metadata of the
  final output: nothing is written and the progress file stays.
\<close>

lemma ok_run:
  "(case try_block toLowerCase_ascii ok_world of
      Inl x \<Rightarrow> False
    | Inr w1 \<Rightarrow>
        (case output_json w1 of
           Some (Final out) \<Rightarrow>
             map name (o_cards out) = [js ''Sol Ring''] \<and> o_totalCards out = 1 \<and>
             o_completionPercentage out = js ''100.0'' \<and>
             m_skippedCollections (o_metadata out) = [] \<and>
             m_processedCollectionsSample (o_metadata out) = [(js ''Foundations'', js ''1234'')]
         | _ \<Rightarrow> False) \<and>
        progress_json w1 = None \<and> writes w1 = 1)"
  by code_simp

lemma resumed_null_skipped_id_aborts:
  "(case try_block toLowerCase_ascii resumed_world of
      Inl (st, w1) \<Rightarrow>
        map name (allCards st) = [js ''Sol Ring''] \<and> output_json w1 = None \<and> writes w1 = 0 \<and>
        progress_json w1 = progress_json resumed_world
    | Inr w1 \<Rightarrow> False)"
  "output_json (scrapeAllCollections toLowerCase_ascii resumed_world) = None"
  by code_simp+

text \<open>
  C3. In the world in which the only collection yields one card and the write of the
  final output fails, the run aborts with one accumulated card. The \<open>catch\<close> clause
  evaluated with the variables of the \<open>try\<close> block would write the partial output
  (isPartial, the accumulated cards); evaluated in its own scope, where \<open>allCards\<close> is
  not declared, it writes nothing: the run ends in the world at the throw, without an
  output file.
\<close>

theorem C3_abort_writes_no_partial_output:
  "\<exists>st w1. try_block toLowerCase_ascii abort_world = Inl (st, w1) \<and>
      0 < length (allCards st) \<and>
      output_json (catch_block (try_scope st) w1) = Some (expected_partial st w1) \<and>
      scrapeAllCollections toLowerCase_ascii abort_world = w1 \<and>
      output_json (scrapeAllCollections toLowerCase_ascii abort_world) = None"
proof -
  from abort_eval obtain st w1 where t: "try_block toLowerCase_ascii abort_world = Inl (st, w1)"
    and f: "map name (allCards st) = [js ''Sol Ring'']" "output_json w1 = None"
      "\<not> write_fails w1 (writes w1)"
    by (auto split: sum.splits)
  from f(1) have l: "0 < length (allCards st)" by (cases "allCards st") auto
  from catch_block_try_scope [OF l f(3)] abort_keeps_world [OF t] abort_result t l
  show ?thesis by blast
qed

end
